theory Spec2Isabelle
  imports Main "HOL-Library.AList" "HOL-Library.Sublist"
begin

section \<open>JavaScript values the handlers rely on\<close>

text \<open>
  Strings are lists of code units. Request fields that the handlers read without a schema
  (\<open>const { context_id, path } = req.body\<close>) are either absent (\<open>undefined\<close>) or a string;
  other JSON types are outside the modelled request type. Time stamps (\<open>new Date()\<close>) are
  milliseconds as integers and are passed in by the caller of each handler.
\<close>

type_synonym field = "string option"

text \<open>\<open>!x\<close> for a field: \<open>undefined\<close> and the empty string are falsy, every other string is truthy.\<close>

definition falsy :: "field \<Rightarrow> bool" where
  "falsy x = (case x of None \<Rightarrow> True | Some s \<Rightarrow> s = [])"

text \<open>
  Node's \<open>Buffer\<close> codec and the engine's case mapping are library code; the handlers are
  parametrised by them. \<open>encodeContent c = Buffer.from(c, 'utf8').toString('base64')\<close>,
  \<open>decodeContent c = Buffer.from(c, 'base64').toString('utf8')\<close>,
  \<open>byteLength c = Buffer.byteLength(c, 'utf8')\<close>, \<open>toLowerCase s = s.toLowerCase()\<close>.
\<close>

record runtime =
  encodeContent :: "string \<Rightarrow> string"
  decodeContent :: "string \<Rightarrow> string"
  byteLength :: "string \<Rightarrow> nat"
  toLowerCase :: "string \<Rightarrow> string"

subsection \<open>Plain objects used as dictionaries\<close>

text \<open>
  \<open>context.files\<close> starts as the literal \<open>{}\<close>: an ordinary object whose prototype is
  \<open>Object.prototype\<close>. Its own properties are kept in creation order. The only way the
  handlers can change its prototype is the assignment \<open>files['__proto__'] = entry\<close>, which
  runs the inherited setter, so the prototype is either \<open>Object.prototype\<close> (\<open>None\<close>) or an
  entry object (whose own prototype is \<open>Object.prototype\<close>).
\<close>

record 'e js_object =
  own :: "(string \<times> 'e) list"
  proto :: "'e option"

definition empty_object :: "'e js_object" where
  "empty_object = \<lparr>own = [], proto = None\<rparr>"

text \<open>The property names every ordinary object inherits from \<open>Object.prototype\<close>.\<close>

definition object_prototype_keys :: "string list" where
  "object_prototype_keys =
     [''constructor'', ''__defineGetter__'', ''__defineSetter__'', ''hasOwnProperty'',
      ''__lookupGetter__'', ''__lookupSetter__'', ''isPrototypeOf'', ''propertyIsEnumerable'',
      ''toString'', ''valueOf'', ''__proto__'', ''toLocaleString'']"

text \<open>\<open>obj[k] = v\<close>\<close>

definition obj_set :: "'e js_object \<Rightarrow> string \<Rightarrow> 'e \<Rightarrow> 'e js_object" where
  "obj_set ob k v =
     (if k = ''__proto__'' then ob\<lparr>proto := Some v\<rparr>
      else ob\<lparr>own := AList.update k v (own ob)\<rparr>)"

text \<open>
  The truth value of \<open>obj[k]\<close>. An own property holds an entry object, which is truthy.
  Otherwise the lookup walks the prototype chain: \<open>props e k\<close> is the truth value of
  property \<open>k\<close> of an entry object \<open>e\<close> (\<open>None\<close> when the entry has no such property), and
  every member of \<open>Object.prototype\<close> is a function or, for \<open>__proto__\<close>, the prototype object.
\<close>

definition obj_truthy :: "('e \<Rightarrow> string \<Rightarrow> bool option) \<Rightarrow> 'e js_object \<Rightarrow> string \<Rightarrow> bool" where
  "obj_truthy props ob k =
     (case map_of (own ob) k of
        Some v \<Rightarrow> True
      | None \<Rightarrow>
          (case (case proto ob of None \<Rightarrow> None | Some e \<Rightarrow> props e k) of
             Some b \<Rightarrow> b
           | None \<Rightarrow> k \<in> set object_prototype_keys))"

text \<open>\<open>delete obj[k]\<close> removes an own property and nothing else.\<close>

definition obj_delete :: "'e js_object \<Rightarrow> string \<Rightarrow> 'e js_object" where
  "obj_delete ob k = ob\<lparr>own := AList.delete k (own ob)\<rparr>"

text \<open>
  \<open>Object.entries\<close> and \<open>Object.keys\<close> list the own properties: first the keys that are
  array indices (canonical decimal numerals below \<open>2^32 - 1\<close>) in ascending numeric order,
  then all other keys in creation order.
\<close>

definition is_digit :: "char \<Rightarrow> bool" where
  "is_digit c = (48 \<le> (of_char c :: nat) \<and> (of_char c :: nat) \<le> 57)"

definition digits_val :: "string \<Rightarrow> nat" where
  "digits_val s = foldl (\<lambda>a c. 10 * a + ((of_char c :: nat) - 48)) 0 s"

definition array_index :: "string \<Rightarrow> nat option" where
  "array_index k =
     (if k \<noteq> [] \<and> list_all is_digit k \<and> (k = ''0'' \<or> hd k \<noteq> CHR ''0'')
         \<and> digits_val k < 4294967295
      then Some (digits_val k) else None)"

definition is_index_key :: "string \<times> 'e \<Rightarrow> bool" where
  "is_index_key p = (array_index (fst p) \<noteq> None)"

definition index_of_key :: "string \<times> 'e \<Rightarrow> nat" where
  "index_of_key p = (case array_index (fst p) of Some n \<Rightarrow> n | None \<Rightarrow> 0)"

definition obj_entries :: "'e js_object \<Rightarrow> (string \<times> 'e) list" where
  "obj_entries ob =
     sort_key index_of_key (filter is_index_key (own ob))
       @ filter (\<lambda>p. \<not> is_index_key p) (own ob)"

definition obj_keys :: "'e js_object \<Rightarrow> string list" where
  "obj_keys ob = map fst (obj_entries ob)"

section \<open>The context store of the validated server\<close>

text \<open>
  \<open>contextStore\<close> is a \<open>Map\<close> from context ids to context objects
  \<open>{ created, files, repoInfo }\<close>; a file entry is \<open>{ content, added, size }\<close> with the
  content held base64-encoded.
\<close>

record file_entry =
  content :: string
  added :: int
  size_bytes :: nat

record repo_info =
  repo :: string
  branch :: string

record 'e context_obj =
  created :: int
  files :: "'e js_object"
  repoInfo :: "repo_info option"

type_synonym 'e contextStore = "string \<rightharpoonup> 'e context_obj"

text \<open>Truth value of an entry's own properties, for lookups that reach an entry through the
  prototype chain: a string is truthy when non-empty, a number when non-zero, a \<open>Date\<close> always.\<close>

definition entry_fields :: "file_entry \<Rightarrow> string \<Rightarrow> bool option" where
  "entry_fields e k =
     (if k = ''content'' then Some (content e \<noteq> [])
      else if k = ''added'' then Some True
      else if k = ''size'' then Some (size_bytes e \<noteq> 0)
      else None)"

text \<open>
  Responses: a JSON body with status 200, or an error status with its \<open>error\<close> text and
  the optional \<open>details\<close> member.
\<close>

datatype details =
    NoDetails
  | JoiRequired string
  | JoiEmpty string
  | Upstream string

datatype 'a response = Ok 'a | Err nat string details

datatype failure_kind = Validation | NotFound | Other

definition kind_of :: "'a response \<Rightarrow> failure_kind option" where
  "kind_of r =
     (case r of
        Ok v \<Rightarrow> None
      | Err st msg d \<Rightarrow>
          Some (if st = 400 then Validation else if st = 404 then NotFound else Other))"

subsection \<open>Joi string rules\<close>

text \<open>
  \<open>Joi.string()\<close> rejects the empty string unless \<open>.allow('')\<close> is given; \<open>.required()\<close>
  rejects \<open>undefined\<close>; \<open>.default(d)\<close> replaces \<open>undefined\<close> by \<open>d\<close>. A rule is the triple
  (required, empty allowed, default); validation returns the first error in schema order.
\<close>

record string_rule =
  required :: bool
  allow_empty :: bool
  default_value :: "string option"

definition joi_string :: "string_rule \<Rightarrow> string \<Rightarrow> field \<Rightarrow> details + field" where
  "joi_string rule label v =
     (case v of
        None \<Rightarrow>
          (if required rule then Inl (JoiRequired label) else Inr (default_value rule))
      | Some s \<Rightarrow>
          (if s = [] \<and> \<not> allow_empty rule then Inl (JoiEmpty label) else Inr (Some s)))"

definition string_required :: string_rule where
  "string_required = \<lparr>required = True, allow_empty = False, default_value = None\<rparr>"

definition string_optional :: string_rule where
  "string_optional = \<lparr>required = False, allow_empty = False, default_value = None\<rparr>"

definition string_default :: "string \<Rightarrow> string_rule" where
  "string_default d = \<lparr>required = False, allow_empty = False, default_value = Some d\<rparr>"

subsection \<open>\<open>POST /v1/init\<close>\<close>

text \<open>
  The id \<open>ctx_<Date.now()>_<random suffix>\<close> is produced by the runtime and passed in as
  \<open>contextId\<close>; \<open>Map.set\<close> overwrites whatever was stored under that id.
\<close>

definition init :: "int \<Rightarrow> string \<Rightarrow> 'e contextStore \<Rightarrow> string response \<times> 'e contextStore" where
  "init now contextId store =
     (Ok contextId,
      store(contextId \<mapsto> \<lparr>created = now, files = empty_object, repoInfo = None\<rparr>))"

subsection \<open>\<open>POST /v1/add_file\<close>\<close>

record add_file_body =
  af_context_id :: field
  af_path :: field
  af_content :: field
  af_repo :: field
  af_branch :: field

text \<open>\<open>schemas.addFile\<close>, keys in schema order.\<close>

definition validate_addFile :: "add_file_body \<Rightarrow> details + add_file_body" where
  "validate_addFile b =
     (case joi_string string_required ''context_id'' (af_context_id b) of
        Inl e \<Rightarrow> Inl e
      | Inr c \<Rightarrow>
     (case joi_string string_required ''path'' (af_path b) of
        Inl e \<Rightarrow> Inl e
      | Inr p \<Rightarrow>
     (case joi_string string_required ''content'' (af_content b) of
        Inl e \<Rightarrow> Inl e
      | Inr t \<Rightarrow>
     (case joi_string string_optional ''repo'' (af_repo b) of
        Inl e \<Rightarrow> Inl e
      | Inr r \<Rightarrow>
     (case joi_string (string_default ''main'') ''branch'' (af_branch b) of
        Inl e \<Rightarrow> Inl e
      | Inr br \<Rightarrow>
          Inr \<lparr>af_context_id = c, af_path = p, af_content = t, af_repo = r, af_branch = br\<rparr>)))))"

record add_file_ok =
  af_message :: string
  af_file_count :: nat

text \<open>\<open>x || 'main'\<close>\<close>

definition or_main :: "field \<Rightarrow> string" where
  "or_main x = (case x of None \<Rightarrow> ''main'' | Some s \<Rightarrow> if s = [] then ''main'' else s)"

definition str_of :: "field \<Rightarrow> string" where
  "str_of x = (case x of None \<Rightarrow> ''undefined'' | Some s \<Rightarrow> s)"

definition add_file ::
  "runtime \<Rightarrow> int \<Rightarrow> file_entry contextStore \<Rightarrow> add_file_body
     \<Rightarrow> add_file_ok response \<times> file_entry contextStore" where
  "add_file rt now store body =
     (case validate_addFile body of
        Inl e \<Rightarrow> (Err 400 ''Validation error'' e, store)
      | Inr b \<Rightarrow>
          (case store (str_of (af_context_id b)) of
             None \<Rightarrow> (Err 404 ''Context not found'' NoDetails, store)
           | Some ctx \<Rightarrow>
               (let path = str_of (af_path b);
                    text = str_of (af_content b);
                    ctx1 = ctx\<lparr>files :=
                      obj_set (files ctx) path
                        \<lparr>content = encodeContent rt text, added = now,
                         size_bytes = byteLength rt text\<rparr>\<rparr>;
                    ctx2 = (if falsy (af_repo b) then ctx1
                            else ctx1\<lparr>repoInfo :=
                              Some \<lparr>repo = str_of (af_repo b), branch = or_main (af_branch b)\<rparr>\<rparr>)
                in (Ok \<lparr>af_message = ''File '' @ path @ '' added'',
                        af_file_count = length (obj_keys (files ctx2))\<rparr>,
                    store(str_of (af_context_id b) \<mapsto> ctx2)))))"

subsection \<open>\<open>POST /v1/remove_file\<close>\<close>

definition remove_file ::
  "file_entry contextStore \<Rightarrow> field \<Rightarrow> field \<Rightarrow> string response \<times> file_entry contextStore" where
  "remove_file store context_id path =
     (if falsy context_id \<or> falsy path then
        (Err 400 ''context_id and path required'' NoDetails, store)
      else
        (case store (str_of context_id) of
           None \<Rightarrow> (Err 404 ''Context not found'' NoDetails, store)
         | Some ctx \<Rightarrow>
             (if obj_truthy entry_fields (files ctx) (str_of path) then
                (Ok (''File '' @ str_of path @ '' removed''),
                 store(str_of context_id \<mapsto> ctx\<lparr>files := obj_delete (files ctx) (str_of path)\<rparr>))
              else (Err 404 ''File not found in context'' NoDetails, store))))"

subsection \<open>\<open>GET /v1/get_context\<close>\<close>

record file_view =
  fv_path :: string
  fv_content :: string
  fv_added :: int
  fv_size :: nat

record context_view =
  cv_context_id :: string
  cv_created :: int
  cv_files :: "file_view list"
  cv_repo_info :: "repo_info option"
  cv_file_count :: nat

definition get_context ::
  "runtime \<Rightarrow> file_entry contextStore \<Rightarrow> field
     \<Rightarrow> context_view response \<times> file_entry contextStore" where
  "get_context rt store context_id =
     (if falsy context_id then (Err 400 ''context_id required'' NoDetails, store)
      else
        (case store (str_of context_id) of
           None \<Rightarrow> (Err 404 ''Context not found'' NoDetails, store)
         | Some ctx \<Rightarrow>
             (Ok \<lparr>cv_context_id = str_of context_id,
                  cv_created = created ctx,
                  cv_files =
                    map (\<lambda>(path, data).
                          \<lparr>fv_path = path, fv_content = decodeContent rt (content data),
                           fv_added = added data, fv_size = size_bytes data\<rparr>)
                      (obj_entries (files ctx)),
                  cv_repo_info = repoInfo ctx,
                  cv_file_count = length (obj_keys (files ctx))\<rparr>,
              store)))"

subsection \<open>\<open>POST /v1/search\<close>\<close>

text \<open>\<open>content.split('\n')\<close>: the pieces between line feeds; the empty string gives one
  empty line.\<close>

fun split_lines :: "string \<Rightarrow> string list" where
  "split_lines [] = [[]]"
| "split_lines (c # cs) =
     (if c = CHR 0x0A then [] # split_lines cs
      else (case split_lines cs of
              [] \<Rightarrow> [[c]]
            | l # ls \<Rightarrow> (c # l) # ls))"

text \<open>\<open>s.includes(q)\<close>: \<open>q\<close> occurs in \<open>s\<close> as a contiguous run.\<close>

definition includes_str :: "string \<Rightarrow> string \<Rightarrow> bool" where
  "includes_str s q = sublist q s"

record match =
  m_line :: nat
  m_content :: string
  m_preview :: string

record file_result =
  r_path :: string
  r_matches :: "match list"
  r_match_count :: nat

record search_ok =
  s_results :: "file_result list"
  s_total_matches :: nat
  s_files_searched :: nat

definition preview_of :: "string \<Rightarrow> string" where
  "preview_of line = (if length line > 100 then take 100 line @ ''...'' else line)"

text \<open>The \<open>lines.forEach((line, i) => ...)\<close> loop; \<open>i\<close> is the zero-based index of the head.\<close>

fun scan_lines :: "runtime \<Rightarrow> string \<Rightarrow> string list \<Rightarrow> nat \<Rightarrow> match list \<Rightarrow> match list" where
  "scan_lines rt query [] i matches = matches"
| "scan_lines rt query (line # rest) i matches =
     scan_lines rt query rest (i + 1)
       (if includes_str (toLowerCase rt line) (toLowerCase rt query)
        then matches @ [\<lparr>m_line = i + 1, m_content = line, m_preview = preview_of line\<rparr>]
        else matches)"

text \<open>The \<open>for (const [path, data] of Object.entries(context.files))\<close> loop.\<close>

fun search_files ::
  "runtime \<Rightarrow> string \<Rightarrow> (string \<times> file_entry) list \<Rightarrow> file_result list \<Rightarrow> file_result list" where
  "search_files rt query [] results = results"
| "search_files rt query ((path, data) # rest) results =
     (let text = decodeContent rt (content data);
          matches = scan_lines rt query (split_lines text) 0 []
      in search_files rt query rest
           (if length matches > 0
            then results @ [\<lparr>r_path = path, r_matches = matches, r_match_count = length matches\<rparr>]
            else results))"

definition search ::
  "runtime \<Rightarrow> file_entry contextStore \<Rightarrow> field \<Rightarrow> field
     \<Rightarrow> search_ok response \<times> file_entry contextStore" where
  "search rt store context_id query =
     (if falsy context_id \<or> falsy query then
        (Err 400 ''context_id and query required'' NoDetails, store)
      else
        (case store (str_of context_id) of
           None \<Rightarrow> (Err 404 ''Context not found'' NoDetails, store)
         | Some ctx \<Rightarrow>
             (let results = search_files rt (str_of query) (obj_entries (files ctx)) []
              in (Ok \<lparr>s_results = results,
                      s_total_matches = foldl (\<lambda>a b. a + r_match_count b) 0 results,
                      s_files_searched = length (obj_keys (files ctx))\<rparr>,
                  store))))"

section \<open>The context store of the first server (\<open>server.js\<close>)\<close>

text \<open>
  \<open>server.js\<close> has the same store without request validation and without the codec: an
  entry is \<open>{ content, added }\<close> with the content as sent (modelled for string contents).
  \<open>Map.has(undefined)\<close> is false, and \<open>files[undefined]\<close> is the property \<open>'undefined'\<close>.
\<close>

record legacy_entry =
  l_content :: string
  l_added :: int

definition legacy_fields :: "legacy_entry \<Rightarrow> string \<Rightarrow> bool option" where
  "legacy_fields e k =
     (if k = ''content'' then Some (l_content e \<noteq> [])
      else if k = ''added'' then Some True
      else None)"

definition map_get :: "'e contextStore \<Rightarrow> field \<Rightarrow> 'e context_obj option" where
  "map_get store context_id = (case context_id of None \<Rightarrow> None | Some c \<Rightarrow> store c)"

record legacy_add_body =
  la_context_id :: field
  la_path :: field
  la_content :: string
  la_repo :: field
  la_branch :: field

definition legacy_add_file ::
  "int \<Rightarrow> legacy_entry contextStore \<Rightarrow> legacy_add_body
     \<Rightarrow> unit response \<times> legacy_entry contextStore" where
  "legacy_add_file now store body =
     (case map_get store (la_context_id body) of
        None \<Rightarrow> (Err 404 ''Context not found'' NoDetails, store)
      | Some ctx \<Rightarrow>
          (let ctx1 = ctx\<lparr>files :=
                 obj_set (files ctx) (str_of (la_path body))
                   \<lparr>l_content = la_content body, l_added = now\<rparr>\<rparr>;
               ctx2 = (if falsy (la_repo body) then ctx1
                       else ctx1\<lparr>repoInfo :=
                         Some \<lparr>repo = str_of (la_repo body), branch = or_main (la_branch body)\<rparr>\<rparr>)
           in (Ok (), store(str_of (la_context_id body) \<mapsto> ctx2))))"

definition legacy_remove_file ::
  "legacy_entry contextStore \<Rightarrow> field \<Rightarrow> field \<Rightarrow> unit response \<times> legacy_entry contextStore" where
  "legacy_remove_file store context_id path =
     (case map_get store context_id of
        None \<Rightarrow> (Err 404 ''Context not found'' NoDetails, store)
      | Some ctx \<Rightarrow>
          (Ok (),
           (if obj_truthy legacy_fields (files ctx) (str_of path)
            then store(str_of context_id \<mapsto> ctx\<lparr>files := obj_delete (files ctx) (str_of path)\<rparr>)
            else store)))"

record legacy_view =
  lv_files :: "(string \<times> string) list"
  lv_repo_info :: "repo_info option"

definition legacy_get_context ::
  "legacy_entry contextStore \<Rightarrow> field \<Rightarrow> legacy_view response \<times> legacy_entry contextStore" where
  "legacy_get_context store context_id =
     (case map_get store context_id of
        None \<Rightarrow> (Err 404 ''Context not found'' NoDetails, store)
      | Some ctx \<Rightarrow>
          (Ok \<lparr>lv_files = map (\<lambda>(path, data). (path, l_content data)) (obj_entries (files ctx)),
               lv_repo_info = repoInfo ctx\<rparr>,
           store))"

record legacy_match =
  lm_line :: nat
  lm_content :: string

record legacy_result =
  lr_path :: string
  lr_matches :: "legacy_match list"

text \<open>\<open>split('\n').map((line, idx) => ({ line: idx + 1, content: line }))\<close>, \<open>idx\<close> starting
  at \<open>i\<close>.\<close>

fun number_lines :: "string list \<Rightarrow> nat \<Rightarrow> legacy_match list" where
  "number_lines [] i = []"
| "number_lines (line # rest) i = \<lparr>lm_line = i + 1, lm_content = line\<rparr> # number_lines rest (i + 1)"

fun legacy_search_files ::
  "string \<Rightarrow> (string \<times> legacy_entry) list \<Rightarrow> legacy_result list \<Rightarrow> legacy_result list" where
  "legacy_search_files query [] results = results"
| "legacy_search_files query ((path, data) # rest) results =
     legacy_search_files query rest
       (if includes_str (l_content data) query
        then results @
          [\<lparr>lr_path = path,
            lr_matches = filter (\<lambda>item. includes_str (lm_content item) query)
                           (number_lines (split_lines (l_content data)) 0)\<rparr>]
        else results)"

definition legacy_search ::
  "legacy_entry contextStore \<Rightarrow> field \<Rightarrow> field
     \<Rightarrow> legacy_result list response \<times> legacy_entry contextStore" where
  "legacy_search store context_id query =
     (case map_get store context_id of
        None \<Rightarrow> (Err 404 ''Context not found'' NoDetails, store)
      | Some ctx \<Rightarrow>
          (Ok (legacy_search_files (str_of query) (obj_entries (files ctx)) []), store))"

subsection \<open>The hourly cleanup\<close>

text \<open>
  The \<open>setInterval\<close> callback visits every entry of the \<open>Map\<close> and deletes those with
  \<open>now - context.created > 24 * 60 * 60 * 1000\<close>. Keys of a \<open>Map\<close> are unique and a deletion
  touches one key, so the loop acts on each id independently.
\<close>

definition retention_ms :: int where
  "retention_ms = 24 * 60 * 60 * 1000"

definition sweep_interval_ms :: int where
  "sweep_interval_ms = 60 * 60 * 1000"

definition cleanup :: "int \<Rightarrow> 'e contextStore \<Rightarrow> 'e contextStore" where
  "cleanup now store =
     (\<lambda>contextId.
        case store contextId of
          None \<Rightarrow> None
        | Some ctx \<Rightarrow> if now - created ctx > retention_ms then None else Some ctx)"

text \<open>
  What the process does to the store over time: requests and timer callbacks, each run to
  completion at its time stamp.
\<close>

datatype legacy_event =
    Init string
  | AddFile legacy_add_body
  | RemoveFile field field
  | GetContext field
  | Search field field
  | Sweep

fun legacy_step :: "int \<times> legacy_event \<Rightarrow> legacy_entry contextStore \<Rightarrow> legacy_entry contextStore" where
  "legacy_step (now, Init contextId) store = snd (init now contextId store)"
| "legacy_step (now, AddFile body) store = snd (legacy_add_file now store body)"
| "legacy_step (now, RemoveFile c p) store = snd (legacy_remove_file store c p)"
| "legacy_step (now, GetContext c) store = snd (legacy_get_context store c)"
| "legacy_step (now, Search c q) store = snd (legacy_search store c q)"
| "legacy_step (now, Sweep) store = cleanup now store"

fun legacy_run ::
  "(int \<times> legacy_event) list \<Rightarrow> legacy_entry contextStore \<Rightarrow> legacy_entry contextStore" where
  "legacy_run [] store = store"
| "legacy_run (ev # evs) store = legacy_run evs (legacy_step ev store)"

section \<open>The atomic commit builder\<close>

subsection \<open>The object store client\<close>

text \<open>
  The handlers talk to the hosted repository through \<open>octokit\<close>. The client is a parameter:
  one function per primitive the handlers call, over an abstract backend state \<open>'s\<close>; a call
  either throws a request error (\<open>status\<close>, \<open>message\<close>) or returns the part of the response
  the handler reads. The arguments are the ones the source passes (the constant \<open>owner\<close> is
  left out): in particular \<open>git.updateRef({ owner, repo, ref, sha })\<close> is given the repository,
  the ref and the new sha, and nothing else.
\<close>

record http_error =
  e_status :: "nat option"
  e_message :: string

record tree_entry =
  te_path :: string
  te_mode :: string
  te_type :: string
  te_sha :: string

text \<open>\<open>getCommit\<close>: \<open>data.sha\<close> and \<open>data.tree.sha\<close>.\<close>

record commit_data =
  cd_sha :: string
  cd_tree_sha :: string

text \<open>\<open>createCommit\<close>: \<open>data.sha\<close>, \<open>data.message\<close>, \<open>data.html_url\<close>.\<close>

record new_commit =
  nc_sha :: string
  nc_message :: string
  nc_html_url :: string

record 's octokit =
  repos_get :: "string \<Rightarrow> 's \<Rightarrow> (http_error + unit) \<times> 's"
  git_getRef :: "string \<Rightarrow> string \<Rightarrow> 's \<Rightarrow> (http_error + string) \<times> 's"
  git_getCommit :: "string \<Rightarrow> string \<Rightarrow> 's \<Rightarrow> (http_error + commit_data) \<times> 's"
  git_createBlob :: "string \<Rightarrow> string \<Rightarrow> 's \<Rightarrow> (http_error + string) \<times> 's"
  git_createTree :: "string \<Rightarrow> string \<Rightarrow> tree_entry list \<Rightarrow> 's \<Rightarrow> (http_error + string) \<times> 's"
  git_createCommit ::
    "string \<Rightarrow> string \<Rightarrow> string \<Rightarrow> string list \<Rightarrow> 's \<Rightarrow> (http_error + new_commit) \<times> 's"
  git_updateRef :: "string \<Rightarrow> string \<Rightarrow> string \<Rightarrow> 's \<Rightarrow> (http_error + unit) \<times> 's"

text \<open>
  To speak about which calls a handler makes, every call is recorded with its answer, in
  the order made. The record is a ghost of the model; the handlers never read it.
\<close>

datatype call =
    ReposGet string
  | GetRef string string
  | GetCommit string string
  | CreateBlob string string
  | CreateTree string string "tree_entry list"
  | CreateCommit string string string "string list"
  | UpdateRef string string string

datatype reply =
    Failed http_error
  | Done
  | Sha string
  | Commit commit_data
  | Created new_commit

type_synonym 's world = "'s \<times> (call \<times> reply) list"

text \<open>
  Inside \<open>try { ... }\<close> a handler ends early either by an exception (caught below and
  answered with 500) or by \<open>return res.status(404).json(...)\<close>.
\<close>

datatype abort = Threw http_error | Replied nat string

type_synonym ('s, 'a) io = "'s world \<Rightarrow> (abort + 'a) \<times> 's world"

definition return_io :: "'a \<Rightarrow> ('s, 'a) io" where
  "return_io a = (\<lambda>w. (Inr a, w))"

definition then_do :: "('s, 'a) io \<Rightarrow> ('a \<Rightarrow> ('s, 'b) io) \<Rightarrow> ('s, 'b) io" where
  "then_do m f = (\<lambda>w. case m w of (Inl x, w') \<Rightarrow> (Inl x, w') | (Inr a, w') \<Rightarrow> f a w')"

text \<open>\<open>await octokit...\<close>: run the call on the backend, record it, throw on a request error.\<close>

definition perform ::
  "call \<Rightarrow> ('a \<Rightarrow> reply) \<Rightarrow> ('s \<Rightarrow> (http_error + 'a) \<times> 's) \<Rightarrow> ('s, 'a) io" where
  "perform c shown op =
     (\<lambda>(s, log). case op s of
        (Inl e, s') \<Rightarrow> (Inl (Threw e), (s', log @ [(c, Failed e)]))
      | (Inr a, s') \<Rightarrow> (Inr a, (s', log @ [(c, shown a)])))"

definition checkRepoExists :: "'s octokit \<Rightarrow> string \<Rightarrow> ('s, bool) io" where
  "checkRepoExists cl repoName =
     (\<lambda>w. case perform (ReposGet repoName) (\<lambda>u. Done) (repos_get cl repoName) w of
        (Inr u, w') \<Rightarrow> (Inr True, w')
      | (Inl (Threw e), w') \<Rightarrow>
          (if e_status e = Some 404 then (Inr False, w') else (Inl (Threw e), w'))
      | (Inl (Replied st msg), w') \<Rightarrow> (Inl (Replied st msg), w'))"

subsection \<open>Request schemas\<close>

record file_item =
  fi_path :: field
  fi_content :: field

record push_files_body =
  pf_repoName :: field
  pf_branch :: field
  pf_files :: "file_item list option"
  pf_message :: field

record push_request =
  pr_repoName :: string
  pr_branch :: string
  pr_files :: "(string \<times> string) list"
  pr_message :: string

text \<open>
  \<open>Joi.array().items(Joi.object({ path, content }))\<close>: every item is checked in order, with
  no bound on the number of items. (Joi's label carries the item's index; it is omitted.)
\<close>

fun validate_items :: "file_item list \<Rightarrow> details + (string \<times> string) list" where
  "validate_items [] = Inr []"
| "validate_items (f # fs) =
     (case joi_string string_required ''files[].path'' (fi_path f) of
        Inl e \<Rightarrow> Inl e
      | Inr p \<Rightarrow>
     (case joi_string string_required ''files[].content'' (fi_content f) of
        Inl e \<Rightarrow> Inl e
      | Inr t \<Rightarrow>
     (case validate_items fs of
        Inl e \<Rightarrow> Inl e
      | Inr rest \<Rightarrow> Inr ((str_of p, str_of t) # rest))))"

text \<open>\<open>schemas.pushFiles\<close>; \<open>.required()\<close> on the array rejects \<open>undefined\<close> only.\<close>

definition validate_pushFiles :: "push_files_body \<Rightarrow> details + push_request" where
  "validate_pushFiles b =
     (case joi_string string_required ''repoName'' (pf_repoName b) of
        Inl e \<Rightarrow> Inl e
      | Inr r \<Rightarrow>
     (case joi_string (string_default ''main'') ''branch'' (pf_branch b) of
        Inl e \<Rightarrow> Inl e
      | Inr br \<Rightarrow>
     (case pf_files b of
        None \<Rightarrow> Inl (JoiRequired ''files'')
      | Some items \<Rightarrow>
     (case validate_items items of
        Inl e \<Rightarrow> Inl e
      | Inr fs \<Rightarrow>
     (case joi_string string_required ''message'' (pf_message b) of
        Inl e \<Rightarrow> Inl e
      | Inr m \<Rightarrow>
          Inr \<lparr>pr_repoName = str_of r, pr_branch = str_of br, pr_files = fs,
               pr_message = str_of m\<rparr>)))))"

record commit_body =
  cm_repoName :: field
  cm_branch :: field
  cm_path :: field
  cm_content :: field
  cm_message :: field

record commit_request =
  cr_repoName :: string
  cr_branch :: string
  cr_path :: string
  cr_content :: string
  cr_message :: string

text \<open>\<open>schemas.commit\<close>\<close>

definition validate_commit :: "commit_body \<Rightarrow> details + commit_request" where
  "validate_commit b =
     (case joi_string string_required ''repoName'' (cm_repoName b) of
        Inl e \<Rightarrow> Inl e
      | Inr r \<Rightarrow>
     (case joi_string (string_default ''main'') ''branch'' (cm_branch b) of
        Inl e \<Rightarrow> Inl e
      | Inr br \<Rightarrow>
     (case joi_string string_required ''path'' (cm_path b) of
        Inl e \<Rightarrow> Inl e
      | Inr p \<Rightarrow>
     (case joi_string string_required ''content'' (cm_content b) of
        Inl e \<Rightarrow> Inl e
      | Inr t \<Rightarrow>
     (case joi_string string_required ''message'' (cm_message b) of
        Inl e \<Rightarrow> Inl e
      | Inr m \<Rightarrow>
          Inr \<lparr>cr_repoName = str_of r, cr_branch = str_of br, cr_path = str_of p,
               cr_content = str_of t, cr_message = str_of m\<rparr>)))))"

subsection \<open>\<open>POST /v1/push_files\<close>\<close>

text \<open>
  \<open>Promise.all(files.map(async (file) => ...))\<close>: the \<open>createBlob\<close> request of every file is
  issued, in list order, before any answer is awaited; the promise then rejects if one of
  them failed (the model takes the first failure in list order) and otherwise yields the
  tree entries in list order.
\<close>

fun create_blobs ::
  "runtime \<Rightarrow> 's octokit \<Rightarrow> string \<Rightarrow> (string \<times> string) list \<Rightarrow> ('s, tree_entry list) io" where
  "create_blobs rt cl repoName [] = return_io []"
| "create_blobs rt cl repoName ((path, text) # rest) =
     (\<lambda>w. case perform (CreateBlob repoName (encodeContent rt text)) Sha
                   (git_createBlob cl repoName (encodeContent rt text)) w of
        (first, w1) \<Rightarrow>
          (case create_blobs rt cl repoName rest w1 of
             (others, w2) \<Rightarrow>
               (case first of
                  Inl x \<Rightarrow> (Inl x, w2)
                | Inr sha \<Rightarrow>
                    (case others of
                       Inl x \<Rightarrow> (Inl x, w2)
                     | Inr entries \<Rightarrow>
                         (Inr (\<lparr>te_path = path, te_mode = ''100644'', te_type = ''blob'',
                                te_sha = sha\<rparr> # entries), w2)))))"

text \<open>
  The 200 body: the new commit (\<open>sha\<close>, \<open>message\<close>, \<open>url\<close>), the \<open>path\<close> and blob \<open>sha\<close> of
  every file, and the branch. Its \<open>success\<close> flag and the \<open>repository\<close> member (owner and
  repository name joined by a slash) are constants of the request and are left out.
\<close>

record push_ok =
  po_commit :: new_commit
  po_files :: "(string \<times> string) list"
  po_branch :: string

text \<open>
  The body of the \<open>try\<close> block up to and including \<open>createCommit\<close> (steps 1 to 5), and then
  the whole block with the final \<open>updateRef\<close> (step 6). The parent of the new commit is
  \<open>latestCommit.data.sha\<close>.
\<close>

definition push_build ::
  "runtime \<Rightarrow> 's octokit \<Rightarrow> push_request \<Rightarrow> ('s, tree_entry list \<times> new_commit) io" where
  "push_build rt cl req =
     then_do (checkRepoExists cl (pr_repoName req)) (\<lambda>exists.
       if \<not> exists
       then (\<lambda>w. (Inl (Replied 404 (''Repository '' @ pr_repoName req @ '' not found'')), w))
       else
     then_do (perform (GetRef (pr_repoName req) (''heads/'' @ pr_branch req)) Sha
                (git_getRef cl (pr_repoName req) (''heads/'' @ pr_branch req)))
       (\<lambda>latestCommitSha.
     then_do (perform (GetCommit (pr_repoName req) latestCommitSha) Commit
                (git_getCommit cl (pr_repoName req) latestCommitSha))
       (\<lambda>latestCommit.
     then_do (create_blobs rt cl (pr_repoName req) (pr_files req))
       (\<lambda>blobs.
     then_do (perform (CreateTree (pr_repoName req) (cd_tree_sha latestCommit) blobs) Sha
                (git_createTree cl (pr_repoName req) (cd_tree_sha latestCommit) blobs))
       (\<lambda>tree.
     then_do (perform (CreateCommit (pr_repoName req) (pr_message req) tree [cd_sha latestCommit])
                Created
                (git_createCommit cl (pr_repoName req) (pr_message req) tree
                   [cd_sha latestCommit]))
       (\<lambda>commit. return_io (blobs, commit)))))))"

definition push_try :: "runtime \<Rightarrow> 's octokit \<Rightarrow> push_request \<Rightarrow> ('s, push_ok) io" where
  "push_try rt cl req =
     then_do (push_build rt cl req) (\<lambda>(blobs, commit).
     then_do (perform (UpdateRef (pr_repoName req) (''heads/'' @ pr_branch req) (nc_sha commit))
                (\<lambda>u. Done)
                (git_updateRef cl (pr_repoName req) (''heads/'' @ pr_branch req) (nc_sha commit)))
       (\<lambda>u. return_io
               \<lparr>po_commit = commit, po_files = map (\<lambda>b. (te_path b, te_sha b)) blobs,
                po_branch = pr_branch req\<rparr>))"

definition push_files ::
  "runtime \<Rightarrow> 's octokit \<Rightarrow> push_files_body \<Rightarrow> 's world \<Rightarrow> push_ok response \<times> 's world" where
  "push_files rt cl body w =
     (case validate_pushFiles body of
        Inl e \<Rightarrow> (Err 400 ''Validation error'' e, w)
      | Inr req \<Rightarrow>
          (case push_try rt cl req w of
             (Inr ok, w') \<Rightarrow> (Ok ok, w')
           | (Inl (Replied st msg), w') \<Rightarrow> (Err st msg NoDetails, w')
           | (Inl (Threw e), w') \<Rightarrow>
               (Err 500 ''Failed to push files'' (Upstream (e_message e)), w')))"

subsection \<open>\<open>PUT /commit\<close>\<close>

text \<open>The single-file route: one blob, one tree entry; the parent is \<open>latestCommitSha\<close>.\<close>

definition commit_build :: "runtime \<Rightarrow> 's octokit \<Rightarrow> commit_request \<Rightarrow> ('s, new_commit) io" where
  "commit_build rt cl req =
     then_do (checkRepoExists cl (cr_repoName req)) (\<lambda>exists.
       if \<not> exists then (\<lambda>w. (Inl (Replied 404 ''Repository not found''), w))
       else
     then_do (perform (GetRef (cr_repoName req) (''heads/'' @ cr_branch req)) Sha
                (git_getRef cl (cr_repoName req) (''heads/'' @ cr_branch req)))
       (\<lambda>latestCommitSha.
     then_do (perform (GetCommit (cr_repoName req) latestCommitSha) Commit
                (git_getCommit cl (cr_repoName req) latestCommitSha))
       (\<lambda>latestCommit.
     then_do (perform (CreateBlob (cr_repoName req) (encodeContent rt (cr_content req))) Sha
                (git_createBlob cl (cr_repoName req) (encodeContent rt (cr_content req))))
       (\<lambda>blob.
     then_do (perform (CreateTree (cr_repoName req) (cd_tree_sha latestCommit)
                         [\<lparr>te_path = cr_path req, te_mode = ''100644'', te_type = ''blob'',
                           te_sha = blob\<rparr>]) Sha
                (git_createTree cl (cr_repoName req) (cd_tree_sha latestCommit)
                   [\<lparr>te_path = cr_path req, te_mode = ''100644'', te_type = ''blob'',
                     te_sha = blob\<rparr>]))
       (\<lambda>newTree.
     perform (CreateCommit (cr_repoName req) (cr_message req) newTree [latestCommitSha]) Created
       (git_createCommit cl (cr_repoName req) (cr_message req) newTree [latestCommitSha]))))))"

definition commit_try :: "runtime \<Rightarrow> 's octokit \<Rightarrow> commit_request \<Rightarrow> ('s, new_commit) io" where
  "commit_try rt cl req =
     then_do (commit_build rt cl req) (\<lambda>commit.
     then_do (perform (UpdateRef (cr_repoName req) (''heads/'' @ cr_branch req) (nc_sha commit))
                (\<lambda>u. Done)
                (git_updateRef cl (cr_repoName req) (''heads/'' @ cr_branch req) (nc_sha commit)))
       (\<lambda>u. return_io commit))"

definition commit ::
  "runtime \<Rightarrow> 's octokit \<Rightarrow> commit_body \<Rightarrow> 's world \<Rightarrow> new_commit response \<times> 's world" where
  "commit rt cl body w =
     (case validate_commit body of
        Inl e \<Rightarrow> (Err 400 ''Validation error'' e, w)
      | Inr req \<Rightarrow>
          (case commit_try rt cl req w of
             (Inr ok, w') \<Rightarrow> (Ok ok, w')
           | (Inl (Replied st msg), w') \<Rightarrow> (Err st msg NoDetails, w')
           | (Inl (Threw e), w') \<Rightarrow>
               (Err 500 ''Failed to commit file'' (Upstream (e_message e)), w')))"

section \<open>Auxiliary notions used in the statements\<close>

text \<open>The match list the search loop computes for one stored file.\<close>

definition file_matches :: "runtime \<Rightarrow> string \<Rightarrow> file_entry \<Rightarrow> match list" where
  "file_matches rt q d = scan_lines rt q (split_lines (decodeContent rt (content d))) 0 []"


text \<open>
  What the claims ask of a search, in their own words: one match per line that contains the
  query, compared after lower-casing both, with its 1-based number, the raw line and the
  bounded preview, in line order.
\<close>

definition expected_matches :: "runtime \<Rightarrow> string \<Rightarrow> string \<Rightarrow> match list" where
  "expected_matches rt q text =
     map (\<lambda>i. \<lparr>m_line = i + 1, m_content = split_lines text ! i,
                m_preview = preview_of (split_lines text ! i)\<rparr>)
       (filter (\<lambda>i. sublist (toLowerCase rt q) (toLowerCase rt (split_lines text ! i)))
          [0..<length (split_lines text)])"

text \<open>The same for the first server: the comparison is on the strings as they are.\<close>

definition expected_legacy_matches :: "string \<Rightarrow> string \<Rightarrow> legacy_match list" where
  "expected_legacy_matches q text =
     map (\<lambda>i. \<lparr>lm_line = i + 1, lm_content = split_lines text ! i\<rparr>)
       (filter (\<lambda>i. sublist q (split_lines text ! i)) [0..<length (split_lines text)])"

text \<open>Own keys of every \<open>files\<close> object are pairwise distinct; all handlers keep it so.\<close>

definition wf_store :: "'e contextStore \<Rightarrow> bool" where
  "wf_store store = (\<forall>c ctx. store c = Some ctx \<longrightarrow> distinct (map fst (own (files ctx))))"

text \<open>Reading the record of calls.\<close>

definition is_update_ref :: "call \<Rightarrow> bool" where
  "is_update_ref c = (case c of UpdateRef r ref sha \<Rightarrow> True | _ \<Rightarrow> False)"

definition failed :: "reply \<Rightarrow> bool" where
  "failed r = (case r of Failed e \<Rightarrow> True | _ \<Rightarrow> False)"

text \<open>
  \<open>obs\<close> is anything one can observe of the backend state (the branch heads, say). A client
  keeps it when only \<open>updateRef\<close> can change it.
\<close>

definition refs_preserved :: "'s octokit \<Rightarrow> ('s \<Rightarrow> 'o) \<Rightarrow> bool" where
  "refs_preserved cl obs =
     ((\<forall>r s. obs (snd (repos_get cl r s)) = obs s)
      \<and> (\<forall>r ref s. obs (snd (git_getRef cl r ref s)) = obs s)
      \<and> (\<forall>r sha s. obs (snd (git_getCommit cl r sha s)) = obs s)
      \<and> (\<forall>r c s. obs (snd (git_createBlob cl r c s)) = obs s)
      \<and> (\<forall>r b es s. obs (snd (git_createTree cl r b es s)) = obs s)
      \<and> (\<forall>r m t ps s. obs (snd (git_createCommit cl r m t ps s)) = obs s))"

text \<open>
  A computation is quiet when it only appends calls other than \<open>updateRef\<close> to the record,
  leaves the observation alone, and has no failed call behind it when it returns normally.
\<close>

definition quiet :: "('s \<Rightarrow> 'o) \<Rightarrow> ('s, 'a) io \<Rightarrow> bool" where
  "quiet obs m =
     (\<forall>s log res s' log'. m (s, log) = (res, (s', log')) \<longrightarrow>
        obs s' = obs s
        \<and> (\<exists>new. log' = log @ new
              \<and> (\<forall>e\<in>set new. \<not> is_update_ref (fst e))
              \<and> (isl res \<or> (\<forall>e\<in>set new. \<not> failed (snd e)))))"

text \<open>
  A computation is loud when it only appends to the record of calls and never aborts without
  a failed call among those it appended.
\<close>

definition loud :: "('s, 'a) io \<Rightarrow> bool" where
  "loud m =
     (\<forall>s log res s' log'. m (s, log) = (res, (s', log')) \<longrightarrow>
        (\<exists>new. log' = log @ new \<and> (isl res \<longrightarrow> (\<exists>e\<in>set new. failed (snd e)))))"

section \<open>A model of the hosted service for the worked examples\<close>

text \<open>
  The theorems about the handlers hold for every client. The examples run the handlers
  against this small model of the hosted service: repositories, branch refs, and the commit
  graph; object ids are built from the content they name. As in the hosted API, an
  \<open>updateRef\<close> without \<open>force\<close> is accepted exactly when it is a fast-forward, that is when the
  current head is an ancestor of (or equal to) the new commit.
\<close>

record gh_state =
  gh_repos :: "string list"
  gh_refs :: "((string \<times> string) \<times> string) list"
  gh_commits :: "(string \<times> (string \<times> string list)) list"

definition not_found :: http_error where
  "not_found = \<lparr>e_status = Some 404, e_message = ''Not Found''\<rparr>"

definition unprocessable :: "string \<Rightarrow> http_error" where
  "unprocessable msg = \<lparr>e_status = Some 422, e_message = msg\<rparr>"

text \<open>\<open>reaches cs n x target\<close>: \<open>target\<close> is \<open>x\<close> or an ancestor of \<open>x\<close> within \<open>n\<close> parent steps.\<close>

fun reaches :: "(string \<times> (string \<times> string list)) list \<Rightarrow> nat \<Rightarrow> string \<Rightarrow> string \<Rightarrow> bool" where
  "reaches cs 0 x target = (x = target)"
| "reaches cs (Suc n) x target =
     (x = target \<or>
      (case map_of cs x of
         None \<Rightarrow> False
       | Some (t, ps) \<Rightarrow> list_ex (\<lambda>p. reaches cs n p target) ps))"

definition github :: "gh_state octokit" where
  "github =
     \<lparr>repos_get = (\<lambda>r s. (if r \<in> set (gh_repos s) then Inr () else Inl not_found, s)),
      git_getRef = (\<lambda>r ref s.
        (case map_of (gh_refs s) (r, ref) of
           Some sha \<Rightarrow> Inr sha
         | None \<Rightarrow> Inl not_found, s)),
      git_getCommit = (\<lambda>r sha s.
        (case map_of (gh_commits s) sha of
           Some (t, ps) \<Rightarrow> Inr \<lparr>cd_sha = sha, cd_tree_sha = t\<rparr>
         | None \<Rightarrow> Inl not_found, s)),
      git_createBlob = (\<lambda>r c s. (Inr (''blob:'' @ c), s)),
      git_createTree = (\<lambda>r base entries s.
        (Inr (''tree:'' @ base @ concat (map (\<lambda>e. ''+'' @ te_path e @ ''='' @ te_sha e) entries)),
         s)),
      git_createCommit = (\<lambda>r msg tree parents s.
        (Inr \<lparr>nc_sha = ''commit:'' @ tree @ concat (map (\<lambda>p. ''^'' @ p) parents),
              nc_message = msg, nc_html_url = []\<rparr>,
         s\<lparr>gh_commits :=
             AList.update (''commit:'' @ tree @ concat (map (\<lambda>p. ''^'' @ p) parents))
               (tree, parents) (gh_commits s)\<rparr>)),
      git_updateRef = (\<lambda>r ref sha s.
        (case map_of (gh_refs s) (r, ref) of
           None \<Rightarrow> (Inl (unprocessable ''Reference does not exist''), s)
         | Some cur \<Rightarrow>
             if reaches (gh_commits s) (length (gh_commits s)) sha cur
             then (Inr (), s\<lparr>gh_refs := AList.update (r, ref) sha (gh_refs s)\<rparr>)
             else (Inl (unprocessable ''Update is not a fast forward''), s)))\<rparr>"

text \<open>
  Another writer acting between the handler's \<open>createCommit\<close> and its \<open>updateRef\<close>: the
  backend state is changed by \<open>other\<close> right after \<open>createCommit\<close> has answered.
\<close>

definition with_concurrent_writer :: "('s \<Rightarrow> 's) \<Rightarrow> 's octokit \<Rightarrow> 's octokit" where
  "with_concurrent_writer other cl =
     cl\<lparr>git_createCommit :=
          (\<lambda>r m t ps s. case git_createCommit cl r m t ps s of (res, s') \<Rightarrow> (res, other s'))\<rparr>"

text \<open>The other writer force-resets \<open>main\<close> of \<open>demo\<close> to the commit \<open>h0\<close>.\<close>

definition reset_main :: "gh_state \<Rightarrow> gh_state" where
  "reset_main s = s\<lparr>gh_refs := AList.update (''demo'', ''heads/main'') ''h0'' (gh_refs s)\<rparr>"

text \<open>Repository \<open>demo\<close>: \<open>main\<close> is at \<open>h1\<close>, whose parent is the root commit \<open>h0\<close>.\<close>

definition gh_example :: gh_state where
  "gh_example =
     \<lparr>gh_repos = [''demo''],
      gh_refs = [((''demo'', ''heads/main''), ''h1'')],
      gh_commits = [(''h0'', (''t0'', [])), (''h1'', (''t1'', [''h0'']))]\<rparr>"

definition push_example :: push_files_body where
  "push_example =
     \<lparr>pf_repoName = Some ''demo'', pf_branch = None,
      pf_files = Some [\<lparr>fi_path = Some ''a.txt'', fi_content = Some ''1''\<rparr>],
      pf_message = Some ''m''\<rparr>"

definition push_example_request :: push_request where
  "push_example_request =
     \<lparr>pr_repoName = ''demo'', pr_branch = ''main'', pr_files = [(''a.txt'', ''1'')],
      pr_message = ''m''\<rparr>"

definition example_commit :: new_commit where
  "example_commit =
     \<lparr>nc_sha = ''commit:tree:t1+a.txt=blob:MQ==^h1'', nc_message = ''m'', nc_html_url = []\<rparr>"

definition commit_example :: commit_body where
  "commit_example =
     \<lparr>cm_repoName = Some ''demo'', cm_branch = Some ''main'', cm_path = Some ''a.txt'',
      cm_content = Some ''1'', cm_message = Some ''m''\<rparr>"

definition commit_example_request :: commit_request where
  "commit_example_request =
     \<lparr>cr_repoName = ''demo'', cr_branch = ''main'', cr_path = ''a.txt'', cr_content = ''1'',
      cr_message = ''m''\<rparr>"

text \<open>The log of the example push up to and including \<open>createCommit\<close>.\<close>

definition example_build_log :: "(call \<times> reply) list" where
  "example_build_log =
     [(ReposGet ''demo'', Done),
      (GetRef ''demo'' ''heads/main'', Sha ''h1''),
      (GetCommit ''demo'' ''h1'', Commit \<lparr>cd_sha = ''h1'', cd_tree_sha = ''t1''\<rparr>),
      (CreateBlob ''demo'' ''MQ=='', Sha ''blob:MQ==''),
      (CreateTree ''demo'' ''t1''
         [\<lparr>te_path = ''a.txt'', te_mode = ''100644'', te_type = ''blob'', te_sha = ''blob:MQ==''\<rparr>],
       Sha ''tree:t1+a.txt=blob:MQ==''),
      (CreateCommit ''demo'' ''m'' ''tree:t1+a.txt=blob:MQ=='' [''h1''], Created example_commit)]"

text \<open>The backend after the example's \<open>createCommit\<close>, and after its accepted \<open>updateRef\<close>.\<close>

definition gh_built :: gh_state where
  "gh_built =
     gh_example\<lparr>gh_commits :=
       gh_commits gh_example
         @ [(nc_sha example_commit, (''tree:t1+a.txt=blob:MQ=='', [''h1'']))]\<rparr>"

definition gh_pushed :: gh_state where
  "gh_pushed = gh_built\<lparr>gh_refs := [((''demo'', ''heads/main''), nc_sha example_commit)]\<rparr>"

text \<open>Requests for a branch that does not exist, and for a repository that does not.\<close>

definition push_missing_branch :: push_files_body where
  "push_missing_branch = push_example\<lparr>pf_branch := Some ''dev''\<rparr>"

definition commit_missing_branch :: commit_body where
  "commit_missing_branch = commit_example\<lparr>cm_branch := Some ''dev''\<rparr>"

definition push_nothing :: push_files_body where
  "push_nothing =
     \<lparr>pf_repoName = Some ''nope'', pf_branch = None, pf_files = Some [], pf_message = Some ''m''\<rparr>"

definition push_empty_file :: push_files_body where
  "push_empty_file =
     \<lparr>pf_repoName = Some ''demo'', pf_branch = None,
      pf_files = Some [\<lparr>fi_path = Some ''a.txt'', fi_content = Some []\<rparr>],
      pf_message = Some ''m''\<rparr>"

section \<open>Concrete instances for the worked examples\<close>

text \<open>
  A runtime for ASCII text: real base64 over the bytes of the string, one byte per
  character, and the ASCII case mapping.
\<close>

definition byte_char :: "nat \<Rightarrow> char" where
  "byte_char n = Char (odd n) (odd (n div 2)) (odd (n div 4)) (odd (n div 8))
                      (odd (n div 16)) (odd (n div 32)) (odd (n div 64)) (odd (n div 128))"

definition base64_alphabet :: string where
  "base64_alphabet = ''ABCDEFGHIJKLMNOPQRSTUVWXYZabcdefghijklmnopqrstuvwxyz0123456789+/''"

definition b64_char :: "nat \<Rightarrow> char" where
  "b64_char n = base64_alphabet ! n"

fun b64_index :: "string \<Rightarrow> char \<Rightarrow> nat" where
  "b64_index [] c = 0"
| "b64_index (a # as) c = (if a = c then 0 else Suc (b64_index as c))"

fun base64_encode :: "nat list \<Rightarrow> string" where
  "base64_encode [] = []"
| "base64_encode [a] = [b64_char (a div 4), b64_char ((a mod 4) * 16), CHR ''='', CHR ''='']"
| "base64_encode [a, b] =
     [b64_char (a div 4), b64_char ((a mod 4) * 16 + b div 16), b64_char ((b mod 16) * 4),
      CHR ''='']"
| "base64_encode (a # b # c # rest) =
     [b64_char (a div 4), b64_char ((a mod 4) * 16 + b div 16),
      b64_char ((b mod 16) * 4 + c div 64), b64_char (c mod 64)] @ base64_encode rest"

fun base64_decode :: "string \<Rightarrow> nat list" where
  "base64_decode (a # b # c # d # rest) =
     (let x = b64_index base64_alphabet a; y = b64_index base64_alphabet b;
          z = b64_index base64_alphabet c; w = b64_index base64_alphabet d
      in if c = CHR ''='' then [x * 4 + y div 16]
         else if d = CHR ''='' then [x * 4 + y div 16, (y mod 16) * 16 + z div 4]
         else [x * 4 + y div 16, (y mod 16) * 16 + z div 4, (z mod 4) * 64 + w]
                @ base64_decode rest)"
| "base64_decode rest = []"

definition ascii_lower :: "char \<Rightarrow> char" where
  "ascii_lower c =
     (if 65 \<le> (of_char c :: nat) \<and> (of_char c :: nat) \<le> 90
      then byte_char ((of_char c :: nat) + 32) else c)"

definition ascii_runtime :: runtime where
  "ascii_runtime =
     \<lparr>encodeContent = (\<lambda>s. base64_encode (map of_char s)),
      decodeContent = (\<lambda>s. map byte_char (base64_decode s)),
      byteLength = length,
      toLowerCase = map ascii_lower\<rparr>"

definition add_body :: "string \<Rightarrow> string \<Rightarrow> string \<Rightarrow> add_file_body" where
  "add_body c p v =
     \<lparr>af_context_id = Some c, af_path = Some p, af_content = Some v,
      af_repo = None, af_branch = None\<rparr>"

definition example_text :: string where
  "example_text = ''Hello'' @ [CHR 0x0A] @ ''big WORLD''"

definition example_context :: "file_entry context_obj" where
  "example_context =
     \<lparr>created = 1000,
      files =
        \<lparr>own = [(''a.txt'', \<lparr>content = ''SGVsbG8KYmlnIFdPUkxE'', added = 1001, size_bytes = 15\<rparr>),
                (''b.txt'', \<lparr>content = ''bm9uZQ=='', added = 1002, size_bytes = 4\<rparr>)],
         proto = None\<rparr>,
      repoInfo = None\<rparr>"

definition example_store :: "file_entry contextStore" where
  "example_store = Map.empty(''ctx_1'' \<mapsto> example_context)"

definition example_result :: search_ok where
  "example_result =
     \<lparr>s_results =
        [\<lparr>r_path = ''a.txt'',
          r_matches = [\<lparr>m_line = 2, m_content = ''big WORLD'', m_preview = ''big WORLD''\<rparr>],
          r_match_count = 1\<rparr>],
      s_total_matches = 1, s_files_searched = 2\<rparr>"

definition legacy_example_context :: "legacy_entry context_obj" where
  "legacy_example_context =
     \<lparr>created = 1000,
      files = \<lparr>own = [(''a.txt'', \<lparr>l_content = ''Hello'', l_added = 1001\<rparr>)], proto = None\<rparr>,
      repoInfo = None\<rparr>"

definition legacy_example_store :: "legacy_entry contextStore" where
  "legacy_example_store = Map.empty(''ctx_1'' \<mapsto> legacy_example_context)"

section \<open>Properties of the context store\<close>

lemmas eval_simps =
  ascii_runtime_def b64_char_def base64_alphabet_def byte_char_def ascii_lower_def
  joi_string_def string_required_def string_optional_def string_default_def
  validate_addFile_def str_of_def falsy_def or_main_def obj_set_def obj_keys_def
  obj_entries_def is_index_key_def index_of_key_def array_index_def is_digit_def
  digits_val_def includes_str_def sublist_Cons_right preview_of_def empty_object_def

lemma example_store_built:
  "snd (add_file ascii_runtime 1002
         (snd (add_file ascii_runtime 1001 (snd (init 1000 ''ctx_1'' Map.empty))
                (add_body ''ctx_1'' ''a.txt'' example_text)))
         (add_body ''ctx_1'' ''b.txt'' ''none'')) = example_store"
  by (simp add: add_file_def init_def add_body_def example_text_def example_store_def
        example_context_def eval_simps)
     (simp add: eval_nat_numeral)

lemma example_search:
  "search ascii_runtime example_store (Some ''ctx_1'') (Some ''world'')
     = (Ok example_result, example_store)"
  by (simp add: search_def example_store_def example_context_def example_result_def eval_simps)

subsection \<open>Order of the checks\<close>

text \<open>
  C9. In \<open>remove_file\<close>, \<open>get_context\<close> and \<open>search\<close> of the validated server the presence
  check of the required fields comes before the lookup of the context: a request with a
  missing (or empty) \<open>context_id\<close>, \<open>path\<close> or \<open>query\<close> is answered with the 400 validation
  failure whatever the store holds, and a 404 is only ever returned for a request whose
  required fields are all present.
\<close>

theorem presence_check_precedes_lookup:
  "(falsy c \<or> falsy p \<longrightarrow> kind_of (fst (remove_file store c p)) = Some Validation)
   \<and> (falsy c \<longrightarrow> kind_of (fst (get_context rt store c)) = Some Validation)
   \<and> (falsy c \<or> falsy q \<longrightarrow> kind_of (fst (search rt store c q)) = Some Validation)
   \<and> (kind_of (fst (remove_file store c p)) = Some NotFound \<longrightarrow> \<not> falsy c \<and> \<not> falsy p)
   \<and> (kind_of (fst (get_context rt store c)) = Some NotFound \<longrightarrow> \<not> falsy c)
   \<and> (kind_of (fst (search rt store c q)) = Some NotFound \<longrightarrow> \<not> falsy c \<and> \<not> falsy q)"
  by (auto simp: remove_file_def get_context_def search_def kind_of_def Let_def
           split: option.splits if_splits)

theorem presence_check_precedes_lookup_witness:
  "falsy None \<and> falsy (Some []) \<and> \<not> falsy (Some ''ctx_unknown'') \<and> \<not> falsy (Some ''a.txt'')
   \<and> kind_of (fst (remove_file Map.empty (Some ''ctx_unknown'') None)) = Some Validation
   \<and> kind_of (fst (get_context ascii_runtime Map.empty (Some []))) = Some Validation
   \<and> kind_of (fst (search ascii_runtime Map.empty (Some ''ctx_unknown'') (Some [])))
       = Some Validation
   \<and> kind_of (fst (remove_file Map.empty (Some ''ctx_unknown'') (Some ''a.txt''))) = Some NotFound
   \<and> kind_of (fst (get_context ascii_runtime Map.empty (Some ''ctx_unknown''))) = Some NotFound
   \<and> kind_of (fst (search ascii_runtime Map.empty (Some ''ctx_unknown'') (Some ''a.txt'')))
       = Some NotFound"
  using presence_check_precedes_lookup
          [of "Some ''ctx_unknown''" None Map.empty ascii_runtime "Some []"]
        presence_check_precedes_lookup
          [of "Some []" None Map.empty ascii_runtime "Some []"]
  by (simp add: falsy_def remove_file_def get_context_def search_def kind_of_def str_of_def)

subsection \<open>The search loops\<close>

lemma foldl_count: "foldl (\<lambda>a b. a + f b) (n::nat) xs = n + sum_list (map f xs)"
  by (induction xs arbitrary: n) auto

lemma set_obj_entries: "set (obj_entries ob) = set (own ob)"
  by (auto simp: obj_entries_def)

lemma length_filter_obj_entries:
  "length (filter P (obj_entries ob)) = length (filter P (own ob))"
proof -
  have "length (filter P (sort_key index_of_key (filter is_index_key (own ob))))
        = length (filter P (filter is_index_key (own ob)))"
    by (simp add: filter_sort)
  moreover have "length (filter P (filter is_index_key xs))
        + length (filter P (filter (\<lambda>p. \<not> is_index_key p) xs)) = length (filter P xs)"
    for xs :: "(string \<times> 'a) list"
    by (induction xs) auto
  ultimately show ?thesis by (simp add: obj_entries_def)
qed

lemma length_obj_keys: "length (obj_keys ob) = length (own ob)"
  using length_filter_obj_entries [of "\<lambda>_. True" ob] by (simp add: obj_keys_def)

lemma search_files_eq:
  "search_files rt q es rs =
     rs @ map (\<lambda>(p, d). \<lparr>r_path = p, r_matches = file_matches rt q d,
                          r_match_count = length (file_matches rt q d)\<rparr>)
            (filter (\<lambda>(p, d). file_matches rt q d \<noteq> []) es)"
  by (induction es arbitrary: rs) (auto simp: Let_def file_matches_def)

text \<open>
  C10. In every successful search response each listed file has at least one match
  (\<open>match_count\<close> is the length of its match list and is at least 1), \<open>total_matches\<close> is the
  sum of the listed \<open>match_count\<close> values, and \<open>files_searched\<close> is the number of files held by
  the context, whether they matched or not.
\<close>

theorem search_counts:
  "search rt store c q = (Ok r, s') \<Longrightarrow>
     list_all (\<lambda>f. 1 \<le> r_match_count f \<and> r_match_count f = length (r_matches f)) (s_results r)
   \<and> s_total_matches r = sum_list (map r_match_count (s_results r))
   \<and> (\<exists>ctx. store (str_of c) = Some ctx \<and> s_files_searched r = length (own (files ctx)))"
  by (auto simp: search_def Let_def foldl_count length_obj_keys search_files_eq list_all_iff
           split: if_splits option.splits) (simp add: Suc_leI)

theorem search_counts_witness:
  "search ascii_runtime example_store (Some ''ctx_1'') (Some ''world'')
     = (Ok example_result, example_store)
   \<and> list_all (\<lambda>f. 1 \<le> r_match_count f \<and> r_match_count f = length (r_matches f))
        (s_results example_result)
   \<and> s_total_matches example_result = sum_list (map r_match_count (s_results example_result))
   \<and> (\<exists>ctx. example_store (str_of (Some ''ctx_1'')) = Some ctx
            \<and> s_files_searched example_result = length (own (files ctx)))"
  by (rule conjI [OF example_search search_counts [OF example_search]])

subsection \<open>Own properties of a \<open>files\<close> object\<close>

lemma filter_key_update:
  "distinct (map fst al) \<Longrightarrow> filter (\<lambda>kv. fst kv = k) (AList.update k v al) = [(k, v)]"
proof (induction al)
  case Nil
  then show ?case by simp
next
  case (Cons a al)
  show ?case
  proof (cases "fst a = k")
    case True
    from Cons.prems True have "\<forall>x\<in>set al. fst x \<noteq> k"
      by (fastforce simp: image_iff)
    then have "filter (\<lambda>kv. fst kv = k) al = []"
      by (simp add: filter_empty_conv)
    with True show ?thesis by (cases a) simp
  next
    case False
    with Cons show ?thesis by (cases a) simp
  qed
qed

lemma singleton_listI: "length xs = 1 \<Longrightarrow> set xs \<subseteq> {x} \<Longrightarrow> xs = [x]"
  by (cases xs) auto

lemma filter_key_obj_entries:
  assumes "filter (\<lambda>kv. fst kv = k) (own ob) = [(k, v)]"
  shows "filter (\<lambda>kv. fst kv = k) (obj_entries ob) = [(k, v)]"
proof (rule singleton_listI)
  show "length (filter (\<lambda>kv. fst kv = k) (obj_entries ob)) = 1"
    using assms by (simp add: length_filter_obj_entries)
  have "set (filter (\<lambda>kv. fst kv = k) (obj_entries ob)) = set (filter (\<lambda>kv. fst kv = k) (own ob))"
    by (simp add: set_obj_entries)
  then show "set (filter (\<lambda>kv. fst kv = k) (obj_entries ob)) \<subseteq> {(k, v)}"
    using assms by simp
qed

lemma distinct_obj_set:
  "distinct (map fst (own ob)) \<Longrightarrow> distinct (map fst (own (obj_set ob k v)))"
  by (simp add: obj_set_def distinct_update)

lemma distinct_obj_delete:
  "distinct (map fst (own ob)) \<Longrightarrow> distinct (map fst (own (obj_delete ob k)))"
  by (simp add: obj_delete_def distinct_delete)

lemma wf_store_empty: "wf_store Map.empty"
  by (simp add: wf_store_def)

lemma wf_store_init: "wf_store store \<Longrightarrow> wf_store (snd (init now cid store))"
  by (simp add: wf_store_def init_def empty_object_def)

lemma wf_store_add_file: "wf_store store \<Longrightarrow> wf_store (snd (add_file rt now store body))"
  by (auto simp: wf_store_def add_file_def Let_def distinct_obj_set split: sum.splits option.splits if_splits)

lemma wf_store_remove_file: "wf_store store \<Longrightarrow> wf_store (snd (remove_file store c p))"
  by (auto simp: wf_store_def remove_file_def distinct_obj_delete split: option.splits if_splits)

lemma add_file_keeps_live:
  assumes "store c = Some ctx" "distinct (map fst (own (files ctx)))"
  shows "\<exists>ctx1. snd (add_file rt now store body) c = Some ctx1
           \<and> distinct (map fst (own (files ctx1)))"
  using assms
  by (auto simp: add_file_def Let_def distinct_obj_set split: sum.splits option.splits if_splits)

lemma validate_addFile_ok:
  assumes "c \<noteq> []" "p \<noteq> []" "v \<noteq> []" "r \<noteq> Some []" "b \<noteq> Some []"
  shows "validate_addFile \<lparr>af_context_id = Some c, af_path = Some p, af_content = Some v,
                            af_repo = r, af_branch = b\<rparr>
         = Inr \<lparr>af_context_id = Some c, af_path = Some p, af_content = Some v,
                af_repo = r, af_branch = (case b of None \<Rightarrow> Some ''main'' | Some x \<Rightarrow> Some x)\<rparr>"
  using assms
  by (auto simp: validate_addFile_def joi_string_def string_required_def string_optional_def
        string_default_def split: option.splits)

lemma add_file_ok:
  assumes "store c = Some ctx" "c \<noteq> []" "p \<noteq> []" "v \<noteq> []" "r \<noteq> Some []" "b \<noteq> Some []"
  shows "\<exists>ri. snd (add_file rt now store \<lparr>af_context_id = Some c, af_path = Some p, af_content = Some v,
                            af_repo = r, af_branch = b\<rparr>)
         = store(c \<mapsto> ctx\<lparr>files := obj_set (files ctx) p
              \<lparr>content = encodeContent rt v, added = now, size_bytes = byteLength rt v\<rparr>, repoInfo := ri\<rparr>)"
proof (cases "falsy r")
  case True
  then show ?thesis
    using assms
    by (intro exI [of _ "repoInfo ctx"]) (simp add: add_file_def validate_addFile_ok str_of_def Let_def)
next
  case False
  then show ?thesis
    using assms
    by (intro exI [of _ "Some \<lparr>repo = str_of r, branch = or_main (case b of None \<Rightarrow> Some ''main'' | Some x \<Rightarrow> Some x)\<rparr>"])
       (simp add: add_file_def validate_addFile_ok str_of_def Let_def)
qed

lemma filter_views:
  "filter (\<lambda>f. fv_path f = p)
     (map (\<lambda>(path, data). \<lparr>fv_path = path, fv_content = decodeContent rt (content data),
                           fv_added = added data, fv_size = size_bytes data\<rparr>) es)
   = map (\<lambda>(path, data). \<lparr>fv_path = path, fv_content = decodeContent rt (content data),
                           fv_added = added data, fv_size = size_bytes data\<rparr>)
       (filter (\<lambda>kv. fst kv = p) es)"
  by (induction es) auto

text \<open>
  C5 (amended). For a live context \<open>c\<close>, a path \<open>p\<close> other than \<open>__proto__\<close> and a second request
  that passes validation (non-empty id, path and content \<open>v2\<close>; \<open>repo\<close> and \<open>branch\<close> absent or
  non-empty): after \<open>addFile(c, p, v1)\<close> followed by \<open>addFile(c, p, v2)\<close>, \<open>getContext(c)\<close> lists
  exactly one entry for \<open>p\<close>; its content is \<open>v2\<close> whenever the codec returns \<open>v2\<close> from its own
  encoding, its size is the byte length of \<open>v2\<close> and its time stamp is that of the second
  write. The first request may be any request for \<open>c\<close> and \<open>p\<close>, accepted or not.
\<close>

theorem overwrite_shows_latest_content:
  assumes live: "store c = Some ctx"
    and wf: "distinct (map fst (own (files ctx)))"
    and ne: "c \<noteq> []" "p \<noteq> []" "v2 \<noteq> []"
    and opt: "r2 \<noteq> Some []" "b2 \<noteq> Some []"
    and np: "p \<noteq> ''__proto__''"
    and codec: "decodeContent rt (encodeContent rt v2) = v2"
  shows "\<exists>view s2.
     s2 = snd (add_file rt t2
            (snd (add_file rt t1 store
                   \<lparr>af_context_id = Some c, af_path = Some p, af_content = Some v1,
                    af_repo = r1, af_branch = b1\<rparr>))
            \<lparr>af_context_id = Some c, af_path = Some p, af_content = Some v2,
             af_repo = r2, af_branch = b2\<rparr>)
     \<and> get_context rt s2 (Some c) = (Ok view, s2)
     \<and> filter (\<lambda>f. fv_path f = p) (cv_files view)
         = [\<lparr>fv_path = p, fv_content = v2, fv_added = t2, fv_size = byteLength rt v2\<rparr>]"
proof -
  let ?e2 = "\<lparr>content = encodeContent rt v2, added = t2, size_bytes = byteLength rt v2\<rparr>"
  let ?s1 = "snd (add_file rt t1 store
                   \<lparr>af_context_id = Some c, af_path = Some p, af_content = Some v1,
                    af_repo = r1, af_branch = b1\<rparr>)"
  obtain ctx1 where live1: "?s1 c = Some ctx1" and wf1: "distinct (map fst (own (files ctx1)))"
    using add_file_keeps_live [of store c ctx] live wf by blast
  obtain ri2 where s2: "snd (add_file rt t2 ?s1
                   \<lparr>af_context_id = Some c, af_path = Some p, af_content = Some v2,
                    af_repo = r2, af_branch = b2\<rparr>)
        = ?s1(c \<mapsto> ctx1\<lparr>files := obj_set (files ctx1) p ?e2, repoInfo := ri2\<rparr>)"
    using add_file_ok [of ?s1 c ctx1 p v2 r2 b2 rt t2] live1 ne opt by blast
  let ?ob = "obj_set (files ctx1) p ?e2"
  have own: "own ?ob = AList.update p ?e2 (own (files ctx1))"
    using np by (simp add: obj_set_def)
  have "filter (\<lambda>kv. fst kv = p) (own ?ob) = [(p, ?e2)]"
    unfolding own by (rule filter_key_update [OF wf1])
  then have ent: "filter (\<lambda>kv. fst kv = p) (obj_entries ?ob) = [(p, ?e2)]"
    by (rule filter_key_obj_entries)
  show ?thesis
    unfolding s2
    using ne(1) codec
    by (simp add: get_context_def falsy_def str_of_def filter_views ent)
qed

text \<open>The amended statement at the example store: \<open>a.txt\<close> written twice.\<close>

theorem overwrite_shows_latest_content_witness:
  "example_store ''ctx_1'' = Some example_context
   \<and> distinct (map fst (own (files example_context)))
   \<and> decodeContent ascii_runtime (encodeContent ascii_runtime ''second'') = ''second''
   \<and> (\<exists>view s2.
        s2 = snd (add_file ascii_runtime 2002
               (snd (add_file ascii_runtime 2001 example_store
                      \<lparr>af_context_id = Some ''ctx_1'', af_path = Some ''a.txt'',
                       af_content = Some ''first'', af_repo = None, af_branch = None\<rparr>))
               \<lparr>af_context_id = Some ''ctx_1'', af_path = Some ''a.txt'',
                af_content = Some ''second'', af_repo = None, af_branch = None\<rparr>)
        \<and> get_context ascii_runtime s2 (Some ''ctx_1'') = (Ok view, s2)
        \<and> filter (\<lambda>f. fv_path f = ''a.txt'') (cv_files view)
            = [\<lparr>fv_path = ''a.txt'', fv_content = ''second'', fv_added = 2002,
                fv_size = byteLength ascii_runtime ''second''\<rparr>])"
proof -
  have live: "example_store ''ctx_1'' = Some example_context"
    by (simp add: example_store_def)
  have wf: "distinct (map fst (own (files example_context)))"
    by (simp add: example_context_def)
  have codec: "decodeContent ascii_runtime (encodeContent ascii_runtime ''second'') = ''second''"
    by (simp add: eval_simps)
  show ?thesis
    using live wf codec
      overwrite_shows_latest_content
        [where store = example_store and c = "''ctx_1''" and ctx = example_context
           and p = "''a.txt''" and ?v2.0 = "''second''" and ?r2.0 = None and ?b2.0 = None
           and rt = ascii_runtime and ?t1.0 = 2001 and ?t2.0 = 2002 and ?v1.0 = "''first''"
           and ?r1.0 = None and ?b1.0 = None]
    by simp
qed

text \<open>
  The claim as stated fails when the second content is the empty string: the request is
  rejected by validation and the entry keeps the first content.
\<close>

theorem overwrite_with_empty_content_rejected:
  "fst (add_file ascii_runtime 2002
          (snd (add_file ascii_runtime 2001 example_store (add_body ''ctx_1'' ''a.txt'' ''first'')))
          (add_body ''ctx_1'' ''a.txt'' []))
     = Err 400 ''Validation error'' (JoiEmpty ''content'')
   \<and> fst (get_context ascii_runtime
          (snd (add_file ascii_runtime 2002
             (snd (add_file ascii_runtime 2001 example_store
                     (add_body ''ctx_1'' ''a.txt'' ''first'')))
             (add_body ''ctx_1'' ''a.txt'' []))) (Some ''ctx_1''))
     = Ok \<lparr>cv_context_id = ''ctx_1'', cv_created = 1000,
            cv_files = [\<lparr>fv_path = ''a.txt'', fv_content = ''first'', fv_added = 2001, fv_size = 5\<rparr>,
                        \<lparr>fv_path = ''b.txt'', fv_content = ''none'', fv_added = 1002, fv_size = 4\<rparr>],
            cv_repo_info = None, cv_file_count = 2\<rparr>"
  by (simp add: add_file_def get_context_def add_body_def example_store_def example_context_def
        eval_simps)

text \<open>
  Outside the amended statement: a file added under the path \<open>__proto__\<close> replaces the
  prototype of \<open>context.files\<close> and is never listed.
\<close>

lemma proto_path_never_listed:
  "fst (get_context ascii_runtime
          (snd (add_file ascii_runtime 2002
             (snd (add_file ascii_runtime 2001 (snd (init 1000 ''ctx_1'' Map.empty))
                     (add_body ''ctx_1'' ''__proto__'' ''first'')))
             (add_body ''ctx_1'' ''__proto__'' ''second''))) (Some ''ctx_1''))
     = Ok \<lparr>cv_context_id = ''ctx_1'', cv_created = 1000, cv_files = [],
            cv_repo_info = None, cv_file_count = 0\<rparr>"
  by (simp add: add_file_def get_context_def add_body_def init_def eval_simps)


subsection \<open>Search\<close>

lemma upt_0_Suc: "[0..<Suc n] = 0 # map Suc [0..<n]"
  by (simp add: upt_conv_Cons map_Suc_upt del: upt_Suc)

lemma scan_lines_eq:
  "scan_lines rt q ls i ms =
     ms @ map (\<lambda>j. \<lparr>m_line = i + j + 1, m_content = ls ! j, m_preview = preview_of (ls ! j)\<rparr>)
            (filter (\<lambda>j. sublist (toLowerCase rt q) (toLowerCase rt (ls ! j))) [0..<length ls])"
proof (induction ls arbitrary: i ms)
  case Nil
  then show ?case by simp
next
  case (Cons l ls)
  have upt: "[0..<length (l # ls)] = 0 # map Suc [0..<length ls]"
    using upt_0_Suc [of "length ls"] by simp
  show ?case
    unfolding upt
    by (simp add: Cons.IH filter_map comp_def includes_str_def)
qed

lemma file_matches_expected:
  "file_matches rt q d = expected_matches rt q (decodeContent rt (content d))"
  by (simp add: file_matches_def expected_matches_def scan_lines_eq)

lemma number_lines_eq:
  "number_lines ls i = map (\<lambda>j. \<lparr>lm_line = i + j + 1, lm_content = ls ! j\<rparr>) [0..<length ls]"
proof (induction ls arbitrary: i)
  case Nil
  then show ?case by simp
next
  case (Cons l ls)
  have upt: "[0..<length (l # ls)] = 0 # map Suc [0..<length ls]"
    using upt_0_Suc [of "length ls"] by simp
  show ?case unfolding upt by (simp add: Cons.IH comp_def)
qed

lemma legacy_matches_expected:
  "filter (\<lambda>item. includes_str (lm_content item) q) (number_lines (split_lines text) 0)
     = expected_legacy_matches q text"
  by (simp add: number_lines_eq expected_legacy_matches_def filter_map comp_def includes_str_def)

lemma legacy_search_files_eq:
  "legacy_search_files q es rs =
     rs @ map (\<lambda>(p, d). \<lparr>lr_path = p, lr_matches = expected_legacy_matches q (l_content d)\<rparr>)
            (filter (\<lambda>(p, d). sublist q (l_content d)) es)"
  by (induction es arbitrary: rs)
     (auto simp: legacy_matches_expected [unfolded includes_str_def] includes_str_def)

lemma preview_bounded: "length (preview_of l) \<le> 103 \<and> (length l \<le> 100 \<longrightarrow> preview_of l = l)"
  by (simp add: preview_of_def)


lemma search_ok_eq:
  assumes "store c = Some ctx" "c \<noteq> []" "q \<noteq> []"
  shows "search rt store (Some c) (Some q) =
     (Ok \<lparr>s_results = map (\<lambda>(p, d). \<lparr>r_path = p,
                 r_matches = expected_matches rt q (decodeContent rt (content d)),
                 r_match_count = length (expected_matches rt q (decodeContent rt (content d)))\<rparr>)
               (filter (\<lambda>(p, d). expected_matches rt q (decodeContent rt (content d)) \<noteq> [])
                  (obj_entries (files ctx))),
          s_total_matches = foldl (\<lambda>a b. a + r_match_count b) 0
             (map (\<lambda>(p, d). \<lparr>r_path = p,
                 r_matches = expected_matches rt q (decodeContent rt (content d)),
                 r_match_count = length (expected_matches rt q (decodeContent rt (content d)))\<rparr>)
               (filter (\<lambda>(p, d). expected_matches rt q (decodeContent rt (content d)) \<noteq> [])
                  (obj_entries (files ctx)))),
          s_files_searched = length (obj_keys (files ctx))\<rparr>, store)"
  using assms
  by (simp add: search_def falsy_def str_of_def search_files_eq file_matches_expected Let_def)

text \<open>
  C4 (amended). In the validated server, for a live context and a non-empty query, search
  answers with exactly one result per file that has a matching line, and that result lists,
  in line order, one match per line containing the query after both are lower-cased (1-based
  line number, the raw line, the preview); files without such a line are not listed; the
  store is left as it was and a repeated call returns the same response. In \<open>server.js\<close>
  search compares the strings as they are (case-sensitively), lists the files whose whole
  content contains the query, and a match carries the line number and the raw line only.
\<close>

theorem search_reports_matching_lines:
  assumes live: "store c = Some ctx" and ne: "c \<noteq> []" "q \<noteq> []"
    and wf: "distinct (map fst (own (files ctx)))"
    and llive: "lstore c = Some lctx"
  shows
   "(\<exists>r. search rt store (Some c) (Some q) = (Ok r, store)
       \<and> (\<forall>(p, d) \<in> set (own (files ctx)).
            if expected_matches rt q (decodeContent rt (content d)) = []
            then p \<notin> r_path ` set (s_results r)
            else \<lparr>r_path = p, r_matches = expected_matches rt q (decodeContent rt (content d)),
                  r_match_count = length (expected_matches rt q (decodeContent rt (content d)))\<rparr>
                   \<in> set (s_results r))
       \<and> (\<forall>f \<in> set (s_results r). \<exists>d. (r_path f, d) \<in> set (own (files ctx))
              \<and> r_matches f = expected_matches rt q (decodeContent rt (content d)))
       \<and> search rt (snd (search rt store (Some c) (Some q))) (Some c) (Some q) = (Ok r, store))
    \<and> legacy_search lstore (Some c) (Some q)
        = (Ok (map (\<lambda>(p, d). \<lparr>lr_path = p, lr_matches = expected_legacy_matches q (l_content d)\<rparr>)
                 (filter (\<lambda>(p, d). sublist q (l_content d)) (obj_entries (files lctx)))), lstore)"
proof (intro conjI)
  let ?em = "\<lambda>d. expected_matches rt q (decodeContent rt (content d))"
  let ?mk = "\<lambda>(p, d). \<lparr>r_path = p, r_matches = ?em d, r_match_count = length (?em d)\<rparr>"
  let ?rs = "map ?mk (filter (\<lambda>(p, d). ?em d \<noteq> []) (obj_entries (files ctx)))"
  let ?r = "\<lparr>s_results = ?rs, s_total_matches = foldl (\<lambda>a b. a + r_match_count b) 0 ?rs,
             s_files_searched = length (obj_keys (files ctx))\<rparr>"
  have run: "search rt store (Some c) (Some q) = (Ok ?r, store)"
    using search_ok_eq [of store c ctx q rt] live ne by simp
  have key: "d' = d" if "(p, d) \<in> set (own (files ctx))" "(p, d') \<in> set (own (files ctx))" for p d d'
    using wf that by (metis eq_key_imp_eq_value)
  have a: "\<forall>(p, d) \<in> set (own (files ctx)).
            if ?em d = [] then p \<notin> r_path ` set (s_results ?r)
            else \<lparr>r_path = p, r_matches = ?em d, r_match_count = length (?em d)\<rparr> \<in> set (s_results ?r)"
  proof (clarify)
    fix p d assume pd: "(p, d) \<in> set (own (files ctx))"
    show "if ?em d = [] then p \<notin> r_path ` set (s_results ?r)
            else \<lparr>r_path = p, r_matches = ?em d, r_match_count = length (?em d)\<rparr> \<in> set (s_results ?r)"
    proof (cases "?em d = []")
      case True
      have "p \<notin> r_path ` set ?rs"
      proof
        assume "p \<in> r_path ` set ?rs"
        then obtain d' where "(p, d') \<in> set (own (files ctx))" "?em d' \<noteq> []"
          by (auto simp: set_obj_entries)
        with key [OF pd] True show False by auto
      qed
      with True show ?thesis by simp
    next
      case False
      with pd have "(p, d) \<in> set (filter (\<lambda>(p, d). ?em d \<noteq> []) (obj_entries (files ctx)))"
        by (simp add: set_obj_entries)
      then have "?mk (p, d) \<in> set ?rs" unfolding set_map by (rule imageI)
      with False show ?thesis by simp
    qed
  qed
  have b: "\<forall>f \<in> set (s_results ?r). \<exists>d. (r_path f, d) \<in> set (own (files ctx)) \<and> r_matches f = ?em d"
    by (auto simp: set_obj_entries)
  have c: "search rt (snd (search rt store (Some c) (Some q))) (Some c) (Some q) = (Ok ?r, store)"
    by (simp add: run)
  from run a b c
  show "\<exists>r. search rt store (Some c) (Some q) = (Ok r, store)
       \<and> (\<forall>(p, d) \<in> set (own (files ctx)).
            if ?em d = [] then p \<notin> r_path ` set (s_results r)
            else \<lparr>r_path = p, r_matches = ?em d, r_match_count = length (?em d)\<rparr> \<in> set (s_results r))
       \<and> (\<forall>f \<in> set (s_results r). \<exists>d. (r_path f, d) \<in> set (own (files ctx)) \<and> r_matches f = ?em d)
       \<and> search rt (snd (search rt store (Some c) (Some q))) (Some c) (Some q) = (Ok r, store)"
    by (intro exI [of _ ?r] conjI)
next
  show "legacy_search lstore (Some c) (Some q)
        = (Ok (map (\<lambda>(p, d). \<lparr>lr_path = p, lr_matches = expected_legacy_matches q (l_content d)\<rparr>)
                 (filter (\<lambda>(p, d). sublist q (l_content d)) (obj_entries (files lctx)))), lstore)"
    using llive by (simp add: legacy_search_def map_get_def str_of_def legacy_search_files_eq)
qed

text \<open>The amended statement at the example stores.\<close>

theorem search_reports_matching_lines_witness:
  "example_store ''ctx_1'' = Some example_context
   \<and> distinct (map fst (own (files example_context)))
   \<and> legacy_example_store ''ctx_1'' = Some legacy_example_context
   \<and> search ascii_runtime example_store (Some ''ctx_1'') (Some ''world'')
       = (Ok example_result, example_store)
   \<and> expected_matches ascii_runtime ''world'' example_text
       = [\<lparr>m_line = 2, m_content = ''big WORLD'', m_preview = ''big WORLD''\<rparr>]
   \<and> expected_matches ascii_runtime ''world'' ''none'' = []
   \<and> legacy_search legacy_example_store (Some ''ctx_1'') (Some ''world'')
       = (Ok [], legacy_example_store)"
proof -
  have live: "example_store ''ctx_1'' = Some example_context"
    by (simp add: example_store_def)
  have wf: "distinct (map fst (own (files example_context)))"
    by (simp add: example_context_def)
  have llive: "legacy_example_store ''ctx_1'' = Some legacy_example_context"
    by (simp add: legacy_example_store_def)
  have e1: "expected_matches ascii_runtime ''world'' example_text
       = [\<lparr>m_line = 2, m_content = ''big WORLD'', m_preview = ''big WORLD''\<rparr>]"
    by (simp add: expected_matches_def example_text_def eval_simps upt_rec [of 0] upt_rec [of 1])
  have e2: "expected_matches ascii_runtime ''world'' ''none'' = []"
    by (simp add: expected_matches_def eval_simps)
  have l: "legacy_search legacy_example_store (Some ''ctx_1'') (Some ''world'')
       = (Ok [], legacy_example_store)"
    using search_reports_matching_lines
        [where store = example_store and c = "''ctx_1''" and ctx = example_context
           and q = "''world''" and lstore = legacy_example_store
           and lctx = legacy_example_context and rt = ascii_runtime]
      live wf llive
    by (simp add: legacy_example_context_def eval_simps)
  show ?thesis
    using live wf llive e1 e2 l example_search by simp
qed

text \<open>
  The claim as stated fails on \<open>server.js\<close>: the only line of \<open>a.txt\<close> contains the query
  when both are lower-cased, and the search returns no result.
\<close>

theorem legacy_search_is_case_sensitive:
  "legacy_search legacy_example_store (Some ''ctx_1'') (Some ''hello'')
     = (Ok [], legacy_example_store)
   \<and> map (\<lambda>(p, d). (p, split_lines (l_content d))) (obj_entries (files legacy_example_context))
       = [(''a.txt'', [''Hello''])]
   \<and> sublist (toLowerCase ascii_runtime ''hello'') (toLowerCase ascii_runtime ''Hello'')"
  by (simp add: legacy_search_def legacy_example_store_def legacy_example_context_def
        map_get_def eval_simps)


subsection \<open>Eviction\<close>

lemma created_legacy_add:
  "snd (legacy_add_file now store body) c = Some ctx' \<Longrightarrow>
     \<exists>ctx. store c = Some ctx \<and> created ctx' = created ctx"
  by (auto simp: legacy_add_file_def map_get_def str_of_def Let_def
           split: option.splits if_splits)

lemma created_legacy_remove:
  "snd (legacy_remove_file store k p) c = Some ctx' \<Longrightarrow>
     \<exists>ctx. store c = Some ctx \<and> created ctx' = created ctx"
  by (auto simp: legacy_remove_file_def map_get_def str_of_def
           split: option.splits if_splits)

lemma legacy_step_created:
  "legacy_step (u, e) store c = Some ctx' \<Longrightarrow>
     (\<exists>ctx. store c = Some ctx \<and> created ctx' = created ctx) \<or> (e = Init c \<and> created ctx' = u)"
proof (cases e)
  case (Init k)
  assume "legacy_step (u, e) store c = Some ctx'"
  with Init show ?thesis by (auto simp: init_def split: if_splits)
next
  case (AddFile body)
  assume "legacy_step (u, e) store c = Some ctx'"
  with AddFile show ?thesis using created_legacy_add [of u store body c ctx'] by simp
next
  case (RemoveFile k p)
  assume "legacy_step (u, e) store c = Some ctx'"
  with RemoveFile show ?thesis using created_legacy_remove [of store k p c ctx'] by simp
next
  case (GetContext k)
  assume "legacy_step (u, e) store c = Some ctx'"
  with GetContext show ?thesis
    by (auto simp: legacy_get_context_def split: option.splits)
next
  case (Search k q)
  assume "legacy_step (u, e) store c = Some ctx'"
  with Search show ?thesis
    by (auto simp: legacy_search_def split: option.splits)
next
  case Sweep
  assume "legacy_step (u, e) store c = Some ctx'"
  with Sweep show ?thesis
    by (auto simp: cleanup_def split: option.splits if_splits)
qed

lemma legacy_step_keeps:
  assumes "store c = Some ctx" "u - created ctx \<le> retention_ms"
  shows "\<exists>ctx'. legacy_step (u, e) store c = Some ctx'
           \<and> (created ctx' = created ctx \<or> (e = Init c \<and> created ctx' = u))"
proof (cases e)
  case (Init k)
  with assms show ?thesis by (auto simp: init_def)
next
  case (AddFile body)
  with assms show ?thesis
    by (auto simp: legacy_add_file_def map_get_def str_of_def Let_def split: option.splits)
next
  case (RemoveFile k p)
  with assms show ?thesis
    by (auto simp: legacy_remove_file_def map_get_def str_of_def split: option.splits)
next
  case (GetContext k)
  with assms show ?thesis by (auto simp: legacy_get_context_def split: option.splits)
next
  case (Search k q)
  with assms show ?thesis by (auto simp: legacy_search_def split: option.splits)
next
  case Sweep
  with assms show ?thesis by (auto simp: cleanup_def)
qed

lemma legacy_run_append: "legacy_run (xs @ ys) store = legacy_run ys (legacy_run xs store)"
  by (induction xs arbitrary: store) auto

lemma legacy_run_present:
  assumes "store c = Some ctx" "t \<le> created ctx"
    and "\<forall>ev\<in>set evs. t \<le> fst ev \<and> fst ev \<le> t + retention_ms"
  shows "\<exists>ctx'. legacy_run evs store c = Some ctx' \<and> t \<le> created ctx'
           \<and> ((\<forall>ev\<in>set evs. snd ev \<noteq> Init c) \<longrightarrow> created ctx' = created ctx)"
  using assms
proof (induction evs arbitrary: store ctx)
  case Nil
  then show ?case by simp
next
  case (Cons ev evs)
  obtain u e where ev: "ev = (u, e)" by (cases ev)
  from Cons.prems ev have u: "t \<le> u" "u \<le> t + retention_ms" by auto
  with Cons.prems have "u - created ctx \<le> retention_ms" by simp
  with legacy_step_keeps [of store c ctx u e] Cons.prems(1)
  obtain ctx1 where s1: "legacy_step (u, e) store c = Some ctx1"
    and c1: "created ctx1 = created ctx \<or> (e = Init c \<and> created ctx1 = u)" by blast
  from c1 u Cons.prems(2) have t1: "t \<le> created ctx1" by auto
  from Cons.prems(3) have rest: "\<forall>ev\<in>set evs. t \<le> fst ev \<and> fst ev \<le> t + retention_ms" by simp
  from Cons.IH [of "legacy_step (u, e) store" ctx1] s1 t1 rest
  obtain ctx' where r: "legacy_run evs (legacy_step (u, e) store) c = Some ctx'" "t \<le> created ctx'"
    "(\<forall>ev\<in>set evs. snd ev \<noteq> Init c) \<longrightarrow> created ctx' = created ctx1" by blast
  with c1 ev show ?case by auto
qed

lemma legacy_run_lower_bound:
  assumes "\<forall>c ctx. store c = Some ctx \<longrightarrow> b < created ctx"
    and "\<forall>ev\<in>set evs. b < fst ev"
  shows "\<forall>c ctx. legacy_run evs store c = Some ctx \<longrightarrow> b < created ctx"
  using assms
proof (induction evs arbitrary: store)
  case Nil
  then show ?case by simp
next
  case (Cons ev evs)
  obtain u e where ev: "ev = (u, e)" by (cases ev)
  have "\<forall>c ctx. legacy_step (u, e) store c = Some ctx \<longrightarrow> b < created ctx"
  proof (intro allI impI)
    fix c ctx assume "legacy_step (u, e) store c = Some ctx"
    with legacy_step_created [of u e store c ctx] Cons.prems ev show "b < created ctx" by auto
  qed
  with Cons ev show ?case by simp
qed

lemma cleanup_bound:
  "cleanup s store c = Some ctx \<Longrightarrow> s - retention_ms \<le> created ctx"
  by (auto simp: cleanup_def split: option.splits if_splits)

text \<open>
  C7. Over any sequence of requests and timer callbacks of \<open>server.js\<close>: a context created
  at time \<open>t\<close> is still in the store after every sequence of events whose time stamps lie
  between \<open>t\<close> and \<open>t + 24h\<close> (with its creation time unchanged unless an \<open>init\<close> reused its id);
  and once a sweep has run at a time \<open>s > t + 24h\<close>, no context created at or before \<open>t\<close> is in
  the store, then or after any later events.
\<close>

theorem eviction_window:
  "(store c = Some ctx \<and> (\<forall>ev\<in>set evs. created ctx \<le> fst ev \<and> fst ev \<le> created ctx + retention_ms)
      \<longrightarrow> (\<exists>ctx'. legacy_run evs store c = Some ctx' \<and> created ctx \<le> created ctx'
             \<and> ((\<forall>ev\<in>set evs. snd ev \<noteq> Init c) \<longrightarrow> created ctx' = created ctx)))
   \<and> (t + retention_ms < s \<and> (\<forall>ev\<in>set post. s \<le> fst ev)
      \<longrightarrow> (\<forall>c' ctx'. legacy_run (pre @ (s, Sweep) # post) store c' = Some ctx' \<longrightarrow> t < created ctx'))"
proof (intro conjI impI)
  assume "store c = Some ctx \<and> (\<forall>ev\<in>set evs. created ctx \<le> fst ev \<and> fst ev \<le> created ctx + retention_ms)"
  then show "\<exists>ctx'. legacy_run evs store c = Some ctx' \<and> created ctx \<le> created ctx'
             \<and> ((\<forall>ev\<in>set evs. snd ev \<noteq> Init c) \<longrightarrow> created ctx' = created ctx)"
    using legacy_run_present [of store c ctx "created ctx" evs] by simp
next
  assume a: "t + retention_ms < s \<and> (\<forall>ev\<in>set post. s \<le> fst ev)"
  let ?s1 = "cleanup s (legacy_run pre store)"
  have "\<forall>c ctx. ?s1 c = Some ctx \<longrightarrow> t < created ctx"
    using cleanup_bound [of s "legacy_run pre store"] a by fastforce
  moreover from a have "\<forall>ev\<in>set post. t < fst ev"
    by (fastforce simp: retention_ms_def)
  ultimately have "\<forall>c ctx. legacy_run post ?s1 c = Some ctx \<longrightarrow> t < created ctx"
    by (rule legacy_run_lower_bound)
  then show "\<forall>c' ctx'. legacy_run (pre @ (s, Sweep) # post) store c' = Some ctx' \<longrightarrow> t < created ctx'"
    by (simp add: legacy_run_append)
qed


text \<open>
  A context created at 1000 ms survives sweeps up to 24 hours later and is gone after the
  first sweep past that.
\<close>

theorem eviction_window_witness:
  "legacy_example_store ''ctx_1'' = Some legacy_example_context
   \<and> created legacy_example_context = 1000
   \<and> legacy_run [(5000, Search (Some ''ctx_1'') (Some ''x'')), (3601000, Sweep), (86401000, Sweep)]
        legacy_example_store ''ctx_1'' = Some legacy_example_context
   \<and> legacy_run [(5000, Search (Some ''ctx_1'') (Some ''x'')), (86401001, Sweep),
                  (86401500, GetContext (Some ''ctx_1''))]
        legacy_example_store ''ctx_1'' = None"
proof -
  let ?evs = "[(5000, Search (Some ''ctx_1'') (Some ''x'')), (3601000, Sweep), (86401000, Sweep)]"
  have live: "legacy_example_store ''ctx_1'' = Some legacy_example_context"
    by (simp add: legacy_example_store_def)
  have t: "created legacy_example_context = 1000"
    by (simp add: legacy_example_context_def)
  have bounds: "\<forall>ev\<in>set ?evs. created legacy_example_context \<le> fst ev
                  \<and> fst ev \<le> created legacy_example_context + retention_ms"
    by (simp add: t retention_ms_def)
  have late: "(1000::int) + retention_ms < 86401001
              \<and> (\<forall>ev\<in>set [(86401500, GetContext (Some ''ctx_1''))]. (86401001::int) \<le> fst ev)"
    by (simp add: retention_ms_def)
  note w = eviction_window
        [where store = legacy_example_store and c = "''ctx_1''"
           and ctx = legacy_example_context and evs = ?evs and t = 1000 and s = 86401001
           and pre = "[(5000, Search (Some ''ctx_1'') (Some ''x''))]"
           and post = "[(86401500, GetContext (Some ''ctx_1''))]"]
  from w live bounds obtain ctx' where
    p: "legacy_run ?evs legacy_example_store ''ctx_1'' = Some ctx'" by blast
  have p': "legacy_run ?evs legacy_example_store ''ctx_1'' = Some legacy_example_context"
    by (simp add: legacy_example_store_def legacy_example_context_def legacy_search_def map_get_def
          cleanup_def retention_ms_def)
  from w late have
    "\<forall>c' ctx'. legacy_run ([(5000, Search (Some ''ctx_1'') (Some ''x''))] @ (86401001, Sweep)
                  # [(86401500, GetContext (Some ''ctx_1''))]) legacy_example_store c' = Some ctx'
        \<longrightarrow> 1000 < created ctx'" by blast
  then have a: "legacy_run [(5000, Search (Some ''ctx_1'') (Some ''x'')), (86401001, Sweep),
                  (86401500, GetContext (Some ''ctx_1''))]
        legacy_example_store ''ctx_1'' = None"
    by (simp add: legacy_example_store_def legacy_example_context_def legacy_search_def map_get_def
          legacy_get_context_def cleanup_def retention_ms_def)
  from live t p' a show ?thesis by simp
qed


subsection \<open>Removal\<close>

lemma obj_truthy_own:
  assumes "proto ob = None" "k \<notin> set object_prototype_keys"
  shows "obj_truthy props ob k \<longleftrightarrow> k \<in> fst ` set (own ob)"
proof (cases "k \<in> fst ` set (own ob)")
  case True
  then have "map_of (own ob) k \<noteq> None"
    by (simp add: map_of_eq_None_iff)
  then obtain a where "map_of (own ob) k = Some a" by blast
  with True show ?thesis by (simp add: obj_truthy_def del: map_of_eq_None_iff)
next
  case False
  then have "map_of (own ob) k = None"
    by (simp add: map_of_eq_None_iff)
  with False assms show ?thesis by (simp add: obj_truthy_def del: map_of_eq_None_iff)
qed

lemma keys_obj_delete: "k \<notin> fst ` set (own (obj_delete ob k))"
  by (simp add: obj_delete_def delete_notin_dom)

lemma paths_of_views:
  "fv_path ` set (map (\<lambda>(path, data). \<lparr>fv_path = path, fv_content = decodeContent rt (content data),
                           fv_added = added data, fv_size = size_bytes data\<rparr>) es) = fst ` set es"
  by (induction es) auto

lemma obj_delete_absent: "k \<notin> fst ` set (own ob) \<Longrightarrow> obj_delete ob k = ob"
  by (simp add: obj_delete_def)

text \<open>
  C6 (amended). In the validated server, for a live context \<open>c\<close> whose \<open>files\<close> object still
  has its original prototype and a non-empty path \<open>p\<close> that is not the name of a member of
  \<open>Object.prototype\<close>: after \<open>removeFile(c, p)\<close>, \<open>getContext(c)\<close> does not list \<open>p\<close>, and a second
  \<open>removeFile(c, p)\<close> fails with 404 \<open>File not found in context\<close>, a message different from
  the 404 \<open>Context not found\<close> of an unknown id; neither call changes anything else. In
  \<open>server.js\<close>, \<open>removeFile\<close> on a live context deletes the entry if there is one and
  acknowledges success in every case, so the second call succeeds as well.
\<close>

theorem remove_file_then_absent:
  assumes live: "store c = Some ctx" and ne: "c \<noteq> []" "p \<noteq> []"
    and plain: "p \<notin> set object_prototype_keys" "proto (files ctx) = None"
    and llive: "lstore c = Some lctx"
  shows
   "(\<exists>s1 view. snd (remove_file store (Some c) (Some p)) = s1
       \<and> get_context rt s1 (Some c) = (Ok view, s1)
       \<and> p \<notin> fv_path ` set (cv_files view)
       \<and> remove_file s1 (Some c) (Some p) = (Err 404 ''File not found in context'' NoDetails, s1)
       \<and> (\<forall>c'. c' \<noteq> [] \<and> s1 c' = None \<longrightarrow>
             remove_file s1 (Some c') (Some p) = (Err 404 ''Context not found'' NoDetails, s1)))
    \<and> (\<exists>l1 lview. legacy_remove_file lstore (Some c) (Some p) = (Ok (), l1)
       \<and> legacy_get_context l1 (Some c) = (Ok lview, l1)
       \<and> p \<notin> fst ` set (lv_files lview)
       \<and> legacy_remove_file l1 (Some c) (Some p) = (Ok (), l1))"
proof (intro conjI)
  let ?s1 = "snd (remove_file store (Some c) (Some p))"
  obtain ctx1 where s1: "?s1 c = Some ctx1" and no_p: "p \<notin> fst ` set (own (files ctx1))"
    and pr: "proto (files ctx1) = None"
  proof (cases "obj_truthy entry_fields (files ctx) p")
    case True
    with live ne plain show ?thesis
      by (intro that [of "ctx\<lparr>files := obj_delete (files ctx) p\<rparr>"])
         (simp_all add: remove_file_def falsy_def str_of_def keys_obj_delete, simp add: obj_delete_def)
  next
    case False
    with live ne plain show ?thesis
      using obj_truthy_own [of "files ctx" p entry_fields]
      by (intro that [of ctx]) (simp_all add: remove_file_def falsy_def str_of_def)
  qed
  have falsy1: "\<not> obj_truthy entry_fields (files ctx1) p"
    using obj_truthy_own [of "files ctx1" p entry_fields] pr plain(1) no_p by simp
  have g: "get_context rt ?s1 (Some c) =
     (Ok \<lparr>cv_context_id = c, cv_created = created ctx1,
          cv_files = map (\<lambda>(path, data). \<lparr>fv_path = path, fv_content = decodeContent rt (content data),
                           fv_added = added data, fv_size = size_bytes data\<rparr>) (obj_entries (files ctx1)),
          cv_repo_info = repoInfo ctx1, cv_file_count = length (obj_keys (files ctx1))\<rparr>, ?s1)"
    using s1 ne by (simp add: get_context_def falsy_def str_of_def)
  have r2: "remove_file ?s1 (Some c) (Some p) = (Err 404 ''File not found in context'' NoDetails, ?s1)"
    using s1 ne falsy1 by (simp add: remove_file_def falsy_def str_of_def)
  have r3: "\<forall>c'. c' \<noteq> [] \<and> ?s1 c' = None \<longrightarrow>
             remove_file ?s1 (Some c') (Some p) = (Err 404 ''Context not found'' NoDetails, ?s1)"
    using ne by (simp add: remove_file_def falsy_def str_of_def)
  show "\<exists>s1 view. snd (remove_file store (Some c) (Some p)) = s1
       \<and> get_context rt s1 (Some c) = (Ok view, s1)
       \<and> p \<notin> fv_path ` set (cv_files view)
       \<and> remove_file s1 (Some c) (Some p) = (Err 404 ''File not found in context'' NoDetails, s1)
       \<and> (\<forall>c'. c' \<noteq> [] \<and> s1 c' = None \<longrightarrow>
             remove_file s1 (Some c') (Some p) = (Err 404 ''Context not found'' NoDetails, s1))"
  proof -
    have np: "p \<notin> fv_path ` set (map (\<lambda>(path, data). \<lparr>fv_path = path,
                 fv_content = decodeContent rt (content data),
                 fv_added = added data, fv_size = size_bytes data\<rparr>) (obj_entries (files ctx1)))"
      unfolding paths_of_views set_obj_entries by (rule no_p)
    from g r2 r3 np show ?thesis by simp
  qed
next
  obtain l1 where r1: "legacy_remove_file lstore (Some c) (Some p) = (Ok (), l1)"
    using llive by (simp add: legacy_remove_file_def map_get_def)
  obtain lctx1 where l1: "l1 c = Some lctx1" and no_p: "p \<notin> fst ` set (own (files lctx1))"
  proof (cases "obj_truthy legacy_fields (files lctx) p")
    case True
    with llive r1 show ?thesis
      by (intro that [of "lctx\<lparr>files := obj_delete (files lctx) p\<rparr>"])
         (auto simp: legacy_remove_file_def map_get_def str_of_def keys_obj_delete)
  next
    case False
    then have "p \<notin> fst ` set (own (files lctx))"
      by (auto simp: obj_truthy_def map_of_eq_None_iff split: option.splits)
    with False llive r1 show ?thesis
      by (intro that [of lctx]) (auto simp: legacy_remove_file_def map_get_def str_of_def)
  qed
  have g: "legacy_get_context l1 (Some c) =
     (Ok \<lparr>lv_files = map (\<lambda>(path, data). (path, l_content data)) (obj_entries (files lctx1)),
          lv_repo_info = repoInfo lctx1\<rparr>, l1)"
    using l1 by (simp add: legacy_get_context_def map_get_def)
  have fst_views: "fst ` set (map (\<lambda>(path, data). (path, l_content data)) es) = fst ` set es"
    for es :: "(string \<times> legacy_entry) list"
    by (induction es) auto
  have same: "l1(c \<mapsto> lctx1\<lparr>files := obj_delete (files lctx1) p\<rparr>) = l1"
    using l1 no_p by (simp add: obj_delete_absent fun_upd_idem)
  have r2: "legacy_remove_file l1 (Some c) (Some p) = (Ok (), l1)"
    using l1 same by (simp add: legacy_remove_file_def map_get_def str_of_def)
  show "\<exists>l1 lview. legacy_remove_file lstore (Some c) (Some p) = (Ok (), l1)
       \<and> legacy_get_context l1 (Some c) = (Ok lview, l1)
       \<and> p \<notin> fst ` set (lv_files lview)
       \<and> legacy_remove_file l1 (Some c) (Some p) = (Ok (), l1)"
  proof -
    have np: "p \<notin> fst ` set (map (\<lambda>(path, data). (path, l_content data)) (obj_entries (files lctx1)))"
      unfolding fst_views set_obj_entries by (rule no_p)
    from r1 g r2 np show ?thesis by simp
  qed
qed

text \<open>The amended statement at the example stores.\<close>

theorem remove_file_then_absent_witness:
  "example_store ''ctx_1'' = Some example_context
   \<and> ''a.txt'' \<notin> set object_prototype_keys
   \<and> proto (files example_context) = None
   \<and> legacy_example_store ''ctx_1'' = Some legacy_example_context
   \<and> (\<exists>s1 view. snd (remove_file example_store (Some ''ctx_1'') (Some ''a.txt'')) = s1
       \<and> get_context ascii_runtime s1 (Some ''ctx_1'') = (Ok view, s1)
       \<and> ''a.txt'' \<notin> fv_path ` set (cv_files view)
       \<and> remove_file s1 (Some ''ctx_1'') (Some ''a.txt'')
           = (Err 404 ''File not found in context'' NoDetails, s1)
       \<and> (\<forall>c'. c' \<noteq> [] \<and> s1 c' = None \<longrightarrow>
             remove_file s1 (Some c') (Some ''a.txt'')
               = (Err 404 ''Context not found'' NoDetails, s1)))
   \<and> (\<exists>l1 lview. legacy_remove_file legacy_example_store (Some ''ctx_1'') (Some ''a.txt'')
           = (Ok (), l1)
       \<and> legacy_get_context l1 (Some ''ctx_1'') = (Ok lview, l1)
       \<and> ''a.txt'' \<notin> fst ` set (lv_files lview)
       \<and> legacy_remove_file l1 (Some ''ctx_1'') (Some ''a.txt'') = (Ok (), l1))"
proof -
  have live: "example_store ''ctx_1'' = Some example_context"
    by (simp add: example_store_def)
  have plain: "''a.txt'' \<notin> set object_prototype_keys" "proto (files example_context) = None"
    by (simp_all add: object_prototype_keys_def example_context_def)
  have llive: "legacy_example_store ''ctx_1'' = Some legacy_example_context"
    by (simp add: legacy_example_store_def)
  show ?thesis
    using live plain llive
      remove_file_then_absent
        [where store = example_store and c = "''ctx_1''" and ctx = example_context
           and p = "''a.txt''" and lstore = legacy_example_store
           and lctx = legacy_example_context and rt = ascii_runtime]
    by simp
qed

text \<open>
  The claim as stated fails on \<open>server.js\<close>: removing \<open>a.txt\<close> twice is acknowledged twice.
\<close>

theorem legacy_remove_twice_acknowledged:
  "legacy_remove_file (snd (legacy_remove_file legacy_example_store (Some ''ctx_1'') (Some ''a.txt'')))
       (Some ''ctx_1'') (Some ''a.txt'')
     = (Ok (), Map.empty(''ctx_1'' \<mapsto> legacy_example_context\<lparr>files := empty_object\<rparr>))"
  by (simp add: legacy_remove_file_def legacy_example_store_def legacy_example_context_def
        map_get_def obj_truthy_def obj_delete_def str_of_def empty_object_def)

text \<open>
  Outside the amended statement: in the validated server a path that names a member of
  \<open>Object.prototype\<close> passes the test \<open>context.files[path]\<close> although no such file was added.
\<close>

lemma remove_inherited_name_acknowledged:
  "remove_file (snd (init 1000 ''ctx_1'' Map.empty)) (Some ''ctx_1'') (Some ''constructor'')
     = (Ok ''File constructor removed'', snd (init 1000 ''ctx_1'' Map.empty))"
  by (simp add: remove_file_def init_def falsy_def str_of_def obj_truthy_def obj_delete_def
        empty_object_def object_prototype_keys_def)

section \<open>Properties of the commit builder\<close>

subsection \<open>Steps 1 to 5 never touch the ref\<close>

lemma quiet_return: "quiet obs (return_io a)"
  by (simp add: quiet_def return_io_def)

lemma quiet_abort: "quiet obs (\<lambda>w. (Inl x, w))"
  by (simp add: quiet_def)

lemma quiet_then_do:
  assumes m: "quiet obs m" and f: "\<And>a. quiet obs (f a)"
  shows "quiet obs (then_do m f)"
  unfolding quiet_def
proof (intro allI impI)
  fix s log res s' log'
  assume run: "then_do m f (s, log) = (res, (s', log'))"
  obtain r1 s1 log1 where m1: "m (s, log) = (r1, (s1, log1))"
    by (metis prod.exhaust)
  from m m1 obtain new1 where o1: "obs s1 = obs s" and l1: "log1 = log @ new1"
    and u1: "\<forall>e\<in>set new1. \<not> is_update_ref (fst e)"
    and f1: "isl r1 \<or> (\<forall>e\<in>set new1. \<not> failed (snd e))"
    unfolding quiet_def by blast
  show "obs s' = obs s \<and> (\<exists>new. log' = log @ new \<and> (\<forall>e\<in>set new. \<not> is_update_ref (fst e))
          \<and> (isl res \<or> (\<forall>e\<in>set new. \<not> failed (snd e))))"
  proof (cases r1)
    case (Inl x)
    with run m1 have "res = Inl x" "s' = s1" "log' = log1"
      by (simp_all add: then_do_def)
    with o1 l1 u1 show ?thesis by auto
  next
    case (Inr a)
    with run m1 have "f a (s1, log1) = (res, (s', log'))"
      by (simp add: then_do_def)
    with f [of a] obtain new2 where o2: "obs s' = obs s1" and l2: "log' = log1 @ new2"
      and u2: "\<forall>e\<in>set new2. \<not> is_update_ref (fst e)"
      and f2: "isl res \<or> (\<forall>e\<in>set new2. \<not> failed (snd e))"
      unfolding quiet_def by blast
    from Inr f1 have f1': "\<forall>e\<in>set new1. \<not> failed (snd e)" by simp
    have "log' = log @ (new1 @ new2)" using l1 l2 by simp
    moreover have "\<forall>e\<in>set (new1 @ new2). \<not> is_update_ref (fst e)" using u1 u2 by auto
    moreover have "isl res \<or> (\<forall>e\<in>set (new1 @ new2). \<not> failed (snd e))" using f1' f2 by auto
    ultimately show ?thesis using o1 o2 by metis
  qed
qed

lemma quiet_perform:
  assumes "\<not> is_update_ref c" "\<And>s. obs (snd (op s)) = obs s" "\<And>a. \<not> failed (shown a)"
  shows "quiet obs (perform c shown op)"
  unfolding quiet_def
proof (intro allI impI)
  fix s log res s' log'
  assume run: "perform c shown op (s, log) = (res, (s', log'))"
  obtain r1 s1 where op: "op s = (r1, s1)" by (metis prod.exhaust)
  with assms(2) [of s] have o: "obs s1 = obs s" by simp
  show "obs s' = obs s \<and> (\<exists>new. log' = log @ new \<and> (\<forall>e\<in>set new. \<not> is_update_ref (fst e))
          \<and> (isl res \<or> (\<forall>e\<in>set new. \<not> failed (snd e))))"
  proof (cases r1)
    case (Inl e)
    with run op have "res = Inl (Threw e)" "s' = s1" "log' = log @ [(c, Failed e)]"
      by (simp_all add: perform_def)
    with o assms(1) show ?thesis by simp
  next
    case (Inr a)
    with run op have "res = Inr a" "s' = s1" "log' = log @ [(c, shown a)]"
      by (simp_all add: perform_def)
    with o assms(1) assms(3) [of a] show ?thesis by simp
  qed
qed

lemma not_failed_simps: "\<not> failed Done" "\<not> failed (Sha x)" "\<not> failed (Commit cd)" "\<not> failed (Created nc)"
  by (simp_all add: failed_def)

lemma quiet_create_blobs:
  assumes "refs_preserved cl obs"
  shows "quiet obs (create_blobs rt cl r fs)"
proof (induction fs)
  case Nil
  show ?case by (simp add: quiet_return)
next
  case (Cons f fs)
  obtain path t where f: "f = (path, t)" by (cases f)
  let ?p = "perform (CreateBlob r (encodeContent rt t)) Sha
              (git_createBlob cl r (encodeContent rt t))"
  have qp: "quiet obs ?p"
    using assms by (intro quiet_perform) (simp_all add: is_update_ref_def refs_preserved_def failed_def)
  show ?case
    unfolding quiet_def f
  proof (intro allI impI)
    fix s log res s' log'
    assume run: "create_blobs rt cl r ((path, t) # fs) (s, log) = (res, (s', log'))"
    obtain r1 s1 log1 where p1: "?p (s, log) = (r1, (s1, log1))" by (metis prod.exhaust)
    obtain r2 s2 log2 where p2: "create_blobs rt cl r fs (s1, log1) = (r2, (s2, log2))"
      by (metis prod.exhaust)
    from qp p1 obtain new1 where o1: "obs s1 = obs s" and l1: "log1 = log @ new1"
      and u1: "\<forall>e\<in>set new1. \<not> is_update_ref (fst e)"
      and f1: "isl r1 \<or> (\<forall>e\<in>set new1. \<not> failed (snd e))"
      unfolding quiet_def by blast
    from Cons.IH p2 obtain new2 where o2: "obs s2 = obs s1" and l2: "log2 = log1 @ new2"
      and u2: "\<forall>e\<in>set new2. \<not> is_update_ref (fst e)"
      and f2: "isl r2 \<or> (\<forall>e\<in>set new2. \<not> failed (snd e))"
      unfolding quiet_def by blast
    from run p1 p2 have w: "s' = s2" "log' = log2"
      by (auto split: sum.splits)
    from run p1 p2 have ok: "\<not> isl res \<Longrightarrow> \<not> isl r1 \<and> \<not> isl r2"
      by (auto split: sum.splits)
    have "log' = log @ (new1 @ new2)" using w l1 l2 by simp
    moreover have "\<forall>e\<in>set (new1 @ new2). \<not> is_update_ref (fst e)" using u1 u2 by auto
    moreover have "isl res \<or> (\<forall>e\<in>set (new1 @ new2). \<not> failed (snd e))"
      using ok f1 f2 by auto
    ultimately show "obs s' = obs s \<and> (\<exists>new. log' = log @ new
          \<and> (\<forall>e\<in>set new. \<not> is_update_ref (fst e))
          \<and> (isl res \<or> (\<forall>e\<in>set new. \<not> failed (snd e))))"
      using o1 o2 w by metis
  qed
qed

lemma quiet_repo_guard:
  assumes "refs_preserved cl obs" "quiet obs rest"
  shows "quiet obs (then_do (checkRepoExists cl r) (\<lambda>exists. if \<not> exists then (\<lambda>w. (Inl x, w)) else rest))"
  unfolding quiet_def
proof (intro allI impI)
  fix s log res s' log'
  assume run: "then_do (checkRepoExists cl r) (\<lambda>exists. if \<not> exists then (\<lambda>w. (Inl x, w)) else rest)
                 (s, log) = (res, (s', log'))"
  obtain r1 s1 where op: "repos_get cl r s = (r1, s1)" by (metis prod.exhaust)
  with assms(1) have o1: "obs s1 = obs s"
    unfolding refs_preserved_def by (metis snd_conv)
  show "obs s' = obs s \<and> (\<exists>new. log' = log @ new \<and> (\<forall>e\<in>set new. \<not> is_update_ref (fst e))
          \<and> (isl res \<or> (\<forall>e\<in>set new. \<not> failed (snd e))))"
  proof (cases r1)
    case (Inl e)
    with run op have "isl res" "s' = s1" "log' = log @ [(ReposGet r, Failed e)]"
      by (auto simp: then_do_def checkRepoExists_def perform_def split: if_splits)
    with o1 show ?thesis by (simp add: is_update_ref_def)
  next
    case (Inr u)
    with run op have "rest (s1, log @ [(ReposGet r, Done)]) = (res, (s', log'))"
      by (simp add: then_do_def checkRepoExists_def perform_def)
    with assms(2) obtain new2 where o2: "obs s' = obs s1"
      and l2: "log' = (log @ [(ReposGet r, Done)]) @ new2"
      and u2: "\<forall>e\<in>set new2. \<not> is_update_ref (fst e)"
      and f2: "isl res \<or> (\<forall>e\<in>set new2. \<not> failed (snd e))"
      unfolding quiet_def by blast
    have "log' = log @ ((ReposGet r, Done) # new2)" using l2 by simp
    moreover have "\<forall>e\<in>set ((ReposGet r, Done) # new2). \<not> is_update_ref (fst e)"
      using u2 by (simp add: is_update_ref_def)
    moreover have "isl res \<or> (\<forall>e\<in>set ((ReposGet r, Done) # new2). \<not> failed (snd e))"
      using f2 by (auto simp: failed_def)
    ultimately show ?thesis using o1 o2 by metis
  qed
qed

lemma quiet_push_build:
  assumes "refs_preserved cl obs"
  shows "quiet obs (push_build rt cl req)"
  unfolding push_build_def
  using assms
  by (intro quiet_repo_guard quiet_then_do quiet_perform quiet_create_blobs quiet_return allI)
     (simp_all add: is_update_ref_def refs_preserved_def failed_def)

lemma quiet_commit_build:
  assumes "refs_preserved cl obs"
  shows "quiet obs (commit_build rt cl req)"
  unfolding commit_build_def
  using assms
  by (intro quiet_repo_guard quiet_then_do quiet_perform quiet_return allI)
     (simp_all add: is_update_ref_def refs_preserved_def failed_def)

lemma refs_preserved_trivial: "refs_preserved cl (\<lambda>s. ())"
  by (simp add: refs_preserved_def)

lemma then_do_cases:
  assumes "then_do m f w = (res, w')"
  shows "(\<exists>x. m w = (Inl x, w') \<and> res = Inl x) \<or> (\<exists>a w1. m w = (Inr a, w1) \<and> f a w1 = (res, w'))"
  using assms by (auto simp: then_do_def split: prod.splits sum.splits)

lemma quiet_from_empty:
  assumes "quiet obs m" "m (s, []) = (res, (s', log))"
  shows "obs s' = obs s" "\<forall>e\<in>set log. \<not> is_update_ref (fst e)"
    "isl res \<or> (\<forall>e\<in>set log. \<not> failed (snd e))"
proof -
  from assms obtain new where "obs s' = obs s" "log = [] @ new"
    "\<forall>e\<in>set new. \<not> is_update_ref (fst e)" "isl res \<or> (\<forall>e\<in>set new. \<not> failed (snd e))"
    unfolding quiet_def by blast
  then show "obs s' = obs s" "\<forall>e\<in>set log. \<not> is_update_ref (fst e)"
    "isl res \<or> (\<forall>e\<in>set log. \<not> failed (snd e))" by simp_all
qed

lemma final_call_log:
  assumes "then_do (perform c shown op) (\<lambda>u. return_io v) (s1, log1) = (res, (s', log))"
  shows "\<exists>rep. log = log1 @ [(c, rep)]"
  using assms
  by (auto simp: then_do_def perform_def return_io_def split: prod.splits sum.splits)

lemma guarded_update:
  assumes q: "quiet obs build"
    and run: "then_do build (\<lambda>x. then_do (perform (c x) (\<lambda>u. Done) (op x)) (\<lambda>u. return_io (v x)))
                (s, []) = (res, (s', log))"
    and upd: "\<And>x. is_update_ref (c x)"
    and bad: "\<exists>e\<in>set log. failed (snd e) \<and> \<not> is_update_ref (fst e)"
  shows "(\<forall>e\<in>set log. \<not> is_update_ref (fst e)) \<and> obs s' = obs s"
  using then_do_cases [OF run]
proof (elim disjE exE conjE)
  fix x assume "build (s, []) = (Inl x, (s', log))"
  from quiet_from_empty [OF q this] show ?thesis by simp
next
  fix a w1
  assume b: "build (s, []) = (Inr a, w1)"
    and u: "then_do (perform (c a) (\<lambda>u. Done) (op a)) (\<lambda>u. return_io (v a)) w1 = (res, (s', log))"
  obtain s1 log1 where w1: "w1 = (s1, log1)" by (cases w1)
  from quiet_from_empty [OF q b [unfolded w1]] have nf: "\<forall>e\<in>set log1. \<not> failed (snd e)" by simp
  from final_call_log [OF u [unfolded w1]] obtain rep where "log = log1 @ [(c a, rep)]" by blast
  with bad nf upd [of a] have False by auto
  then show ?thesis by simp
qed

lemma push_try_shape:
  "push_try rt cl req =
      then_do (push_build rt cl req) (\<lambda>x. then_do
        (perform (UpdateRef (pr_repoName req) (''heads/'' @ pr_branch req) (nc_sha (snd x))) (\<lambda>u. Done)
           (git_updateRef cl (pr_repoName req) (''heads/'' @ pr_branch req) (nc_sha (snd x))))
        (\<lambda>u. return_io \<lparr>po_commit = snd x, po_files = map (\<lambda>b. (te_path b, te_sha b)) (fst x),
                          po_branch = pr_branch req\<rparr>))"
  unfolding push_try_def by (rule arg_cong [of _ _ "then_do (push_build rt cl req)"]) (simp add: case_prod_beta fun_eq_iff)

lemma push_files_run:
  assumes "push_files rt cl body w = (resp, (s', log))" "log \<noteq> snd w"
  shows "\<exists>req res. validate_pushFiles body = Inr req \<and> push_try rt cl req w = (res, (s', log))"
  using assms
  by (cases w) (auto simp: push_files_def split: prod.splits sum.splits abort.splits)

lemma commit_run:
  assumes "commit rt cl body w = (resp, (s', log))" "log \<noteq> snd w"
  shows "\<exists>req res. validate_commit body = Inr req \<and> commit_try rt cl req w = (res, (s', log))"
  using assms
  by (cases w) (auto simp: commit_def split: prod.splits sum.splits abort.splits)

text \<open>
  C3. In both commit routes, whenever a call before the ref update fails (the repository
  lookup, resolving the head, fetching its commit, creating a blob, the tree or the commit),
  \<open>updateRef\<close> is never called in that request; and with a client whose other calls cannot
  move a ref, whatever is observable of the refs is the same after the request as before.
\<close>

theorem failure_before_update_leaves_ref:
  "(push_files rt cl body (s, []) = (resp, (s', log))
      \<and> (\<exists>e\<in>set log. failed (snd e) \<and> \<not> is_update_ref (fst e))
     \<longrightarrow> (\<forall>e\<in>set log. \<not> is_update_ref (fst e)) \<and> (refs_preserved cl obs \<longrightarrow> obs s' = obs s))
   \<and> (commit rt cl cbody (s, []) = (cresp, (cs', clog))
      \<and> (\<exists>e\<in>set clog. failed (snd e) \<and> \<not> is_update_ref (fst e))
     \<longrightarrow> (\<forall>e\<in>set clog. \<not> is_update_ref (fst e)) \<and> (refs_preserved cl obs \<longrightarrow> obs cs' = obs s))"
proof (intro conjI impI)
  assume a: "push_files rt cl body (s, []) = (resp, (s', log))
      \<and> (\<exists>e\<in>set log. failed (snd e) \<and> \<not> is_update_ref (fst e))"
  then have "log \<noteq> snd (s, [])" by auto
  with a push_files_run [of rt cl body "(s, [])" resp s' log]
  obtain req res where run: "push_try rt cl req (s, []) = (res, (s', log))" by blast
  from a have bad: "\<exists>e\<in>set log. failed (snd e) \<and> \<not> is_update_ref (fst e)" by simp
  show "\<forall>e\<in>set log. \<not> is_update_ref (fst e)"
    using guarded_update [OF quiet_push_build [OF refs_preserved_trivial] run [unfolded push_try_shape] _ bad]
    by (simp add: is_update_ref_def)
  show "obs s' = obs s" if "refs_preserved cl obs"
    using guarded_update [OF quiet_push_build [OF that] run [unfolded push_try_shape] _ bad]
    by (simp add: is_update_ref_def)
next
  assume a: "commit rt cl cbody (s, []) = (cresp, (cs', clog))
      \<and> (\<exists>e\<in>set clog. failed (snd e) \<and> \<not> is_update_ref (fst e))"
  then have "clog \<noteq> snd (s, [])" by auto
  with a commit_run [of rt cl cbody "(s, [])" cresp cs' clog]
  obtain req res where run: "commit_try rt cl req (s, []) = (res, (cs', clog))" by blast
  from a have bad: "\<exists>e\<in>set clog. failed (snd e) \<and> \<not> is_update_ref (fst e)" by simp
  show "\<forall>e\<in>set clog. \<not> is_update_ref (fst e)"
    using guarded_update [OF quiet_commit_build [OF refs_preserved_trivial] run [unfolded commit_try_def] _ bad]
    by (simp add: is_update_ref_def)
  show "obs cs' = obs s" if "refs_preserved cl obs"
    using guarded_update [OF quiet_commit_build [OF that] run [unfolded commit_try_def] _ bad]
    by (simp add: is_update_ref_def)
qed

subsection \<open>What a run that reaches the ref update has done\<close>

lemma then_do_ok:
  assumes "then_do m f w = (Inr b, w')"
  shows "\<exists>a s1 l1. m w = (Inr a, (s1, l1)) \<and> f a (s1, l1) = (Inr b, w')"
  using then_do_cases [OF assms] by auto

lemma perform_ok:
  assumes "perform c shown op (s, log) = (Inr a, (s', log'))"
  shows "op s = (Inr a, s') \<and> log' = log @ [(c, shown a)]"
  using assms by (auto simp: perform_def split: prod.splits sum.splits)

lemma perform_result:
  "perform c shown op (s, log) =
     (case op s of
        (Inl e, s') \<Rightarrow> (Inl (Threw e), (s', log @ [(c, Failed e)]))
      | (Inr a, s') \<Rightarrow> (Inr a, (s', log @ [(c, shown a)])))"
  by (simp add: perform_def)

lemma repo_guard_ok:
  assumes "then_do (checkRepoExists cl r) (\<lambda>exists. if \<not> exists then (\<lambda>w. (Inl x, w)) else rest)
             (s, log) = (Inr b, w')"
  shows "\<exists>s1. repos_get cl r s = (Inr (), s1) \<and> rest (s1, log @ [(ReposGet r, Done)]) = (Inr b, w')"
  using assms
  by (auto simp: then_do_def checkRepoExists_def perform_def
           split: prod.splits sum.splits abort.splits if_splits)

lemma create_blobs_ok:
  assumes "create_blobs rt cl r fs (s, log) = (Inr entries, (s', log'))"
  shows "\<exists>bl. log' = log @ bl \<and> list_all (\<lambda>e. \<exists>c x. e = (CreateBlob r c, Sha x)) bl
           \<and> map te_path entries = map fst fs"
  using assms
proof (induction fs arbitrary: s log entries)
  case Nil
  then show ?case by (simp add: return_io_def)
next
  case (Cons f fs)
  obtain path t where f: "f = (path, t)" by (cases f)
  obtain r1 s1 where op: "git_createBlob cl r (encodeContent rt t) s = (r1, s1)"
    by (metis prod.exhaust)
  from Cons.prems f op obtain sha where r1: "r1 = Inr sha"
    by (cases r1) (auto simp: perform_def split: prod.splits sum.splits)
  let ?log1 = "log @ [(CreateBlob r (encodeContent rt t), Sha sha)]"
  from Cons.prems f op r1 obtain rest where
    run: "create_blobs rt cl r fs (s1, ?log1) = (Inr rest, (s', log'))"
    and ent: "entries = \<lparr>te_path = path, te_mode = ''100644'', te_type = ''blob'', te_sha = sha\<rparr> # rest"
    by (auto simp: perform_def split: prod.splits sum.splits)
  from Cons.IH [OF run] obtain bl where bl: "log' = ?log1 @ bl"
    "list_all (\<lambda>e. \<exists>c x. e = (CreateBlob r c, Sha x)) bl" "map te_path rest = map fst fs"
    by blast
  show ?case
    using bl ent f
    by (intro exI [of _ "(CreateBlob r (encodeContent rt t), Sha sha) # bl"]) simp
qed

lemma push_build_ok:
  assumes "push_build rt cl req (s, log) = (Inr (entries, nc), (s1, log1))"
  shows "\<exists>h cd bl t.
     log1 = log @ [(ReposGet (pr_repoName req), Done),
                   (GetRef (pr_repoName req) (''heads/'' @ pr_branch req), Sha h),
                   (GetCommit (pr_repoName req) h, Commit cd)] @ bl @
                  [(CreateTree (pr_repoName req) (cd_tree_sha cd) entries, Sha t),
                   (CreateCommit (pr_repoName req) (pr_message req) t [cd_sha cd], Created nc)]
     \<and> list_all (\<lambda>e. \<exists>c x. e = (CreateBlob (pr_repoName req) c, Sha x)) bl
     \<and> map te_path entries = map fst (pr_files req)"
proof -
  from repo_guard_ok [OF assms [unfolded push_build_def]]
  obtain s0 where a: "then_do (perform (GetRef (pr_repoName req) (''heads/'' @ pr_branch req)) Sha
                (git_getRef cl (pr_repoName req) (''heads/'' @ pr_branch req)))
       (\<lambda>latestCommitSha.
     then_do (perform (GetCommit (pr_repoName req) latestCommitSha) Commit
                (git_getCommit cl (pr_repoName req) latestCommitSha))
       (\<lambda>latestCommit.
     then_do (create_blobs rt cl (pr_repoName req) (pr_files req))
       (\<lambda>blobs.
     then_do (perform (CreateTree (pr_repoName req) (cd_tree_sha latestCommit) blobs) Sha
                (git_createTree cl (pr_repoName req) (cd_tree_sha latestCommit) blobs))
       (\<lambda>tree.
     then_do (perform (CreateCommit (pr_repoName req) (pr_message req) tree [cd_sha latestCommit])
                Created
                (git_createCommit cl (pr_repoName req) (pr_message req) tree
                   [cd_sha latestCommit]))
       (\<lambda>commit. return_io (blobs, commit))))))
       (s0, log @ [(ReposGet (pr_repoName req), Done)]) = (Inr (entries, nc), (s1, log1))"
    by blast
  from then_do_ok [OF a] obtain h sa la where
    p1: "perform (GetRef (pr_repoName req) (''heads/'' @ pr_branch req)) Sha
                (git_getRef cl (pr_repoName req) (''heads/'' @ pr_branch req))
           (s0, log @ [(ReposGet (pr_repoName req), Done)]) = (Inr h, (sa, la))"
    and b: "then_do (perform (GetCommit (pr_repoName req) h) Commit
                (git_getCommit cl (pr_repoName req) h))
       (\<lambda>latestCommit.
     then_do (create_blobs rt cl (pr_repoName req) (pr_files req))
       (\<lambda>blobs.
     then_do (perform (CreateTree (pr_repoName req) (cd_tree_sha latestCommit) blobs) Sha
                (git_createTree cl (pr_repoName req) (cd_tree_sha latestCommit) blobs))
       (\<lambda>tree.
     then_do (perform (CreateCommit (pr_repoName req) (pr_message req) tree [cd_sha latestCommit])
                Created
                (git_createCommit cl (pr_repoName req) (pr_message req) tree
                   [cd_sha latestCommit]))
       (\<lambda>commit. return_io (blobs, commit))))) (sa, la) = (Inr (entries, nc), (s1, log1))"
    by blast
  from perform_ok [OF p1] have la: "la = log @ [(ReposGet (pr_repoName req), Done)] @
      [(GetRef (pr_repoName req) (''heads/'' @ pr_branch req), Sha h)]" by simp
  from then_do_ok [OF b] obtain cd sb lb where
    p2: "perform (GetCommit (pr_repoName req) h) Commit (git_getCommit cl (pr_repoName req) h)
           (sa, la) = (Inr cd, (sb, lb))"
    and c: "then_do (create_blobs rt cl (pr_repoName req) (pr_files req))
       (\<lambda>blobs.
     then_do (perform (CreateTree (pr_repoName req) (cd_tree_sha cd) blobs) Sha
                (git_createTree cl (pr_repoName req) (cd_tree_sha cd) blobs))
       (\<lambda>tree.
     then_do (perform (CreateCommit (pr_repoName req) (pr_message req) tree [cd_sha cd])
                Created
                (git_createCommit cl (pr_repoName req) (pr_message req) tree [cd_sha cd]))
       (\<lambda>commit. return_io (blobs, commit)))) (sb, lb) = (Inr (entries, nc), (s1, log1))"
    by blast
  from perform_ok [OF p2] have lb: "lb = la @ [(GetCommit (pr_repoName req) h, Commit cd)]" by simp
  from then_do_ok [OF c] obtain blobs sc lc where
    p3: "create_blobs rt cl (pr_repoName req) (pr_files req) (sb, lb) = (Inr blobs, (sc, lc))"
    and d: "then_do (perform (CreateTree (pr_repoName req) (cd_tree_sha cd) blobs) Sha
                (git_createTree cl (pr_repoName req) (cd_tree_sha cd) blobs))
       (\<lambda>tree.
     then_do (perform (CreateCommit (pr_repoName req) (pr_message req) tree [cd_sha cd])
                Created
                (git_createCommit cl (pr_repoName req) (pr_message req) tree [cd_sha cd]))
       (\<lambda>commit. return_io (blobs, commit))) (sc, lc) = (Inr (entries, nc), (s1, log1))"
    by blast
  from create_blobs_ok [OF p3] obtain bl where lc: "lc = lb @ bl"
    and bl: "list_all (\<lambda>e. \<exists>c x. e = (CreateBlob (pr_repoName req) c, Sha x)) bl"
    and paths: "map te_path blobs = map fst (pr_files req)" by blast
  from then_do_ok [OF d] obtain t sd ld where
    p4: "perform (CreateTree (pr_repoName req) (cd_tree_sha cd) blobs) Sha
                (git_createTree cl (pr_repoName req) (cd_tree_sha cd) blobs) (sc, lc)
           = (Inr t, (sd, ld))"
    and e: "then_do (perform (CreateCommit (pr_repoName req) (pr_message req) t [cd_sha cd])
                Created
                (git_createCommit cl (pr_repoName req) (pr_message req) t [cd_sha cd]))
       (\<lambda>commit. return_io (blobs, commit)) (sd, ld) = (Inr (entries, nc), (s1, log1))"
    by blast
  from perform_ok [OF p4] have ld: "ld = lc @ [(CreateTree (pr_repoName req) (cd_tree_sha cd) blobs, Sha t)]"
    by simp
  from then_do_ok [OF e] obtain nc' se le where
    p5: "perform (CreateCommit (pr_repoName req) (pr_message req) t [cd_sha cd])
                Created
                (git_createCommit cl (pr_repoName req) (pr_message req) t [cd_sha cd]) (sd, ld)
           = (Inr nc', (se, le))"
    and f: "return_io (blobs, nc') (se, le) = (Inr (entries, nc), (s1, log1))"
    by blast
  from f have eq: "blobs = entries" "nc' = nc" "le = log1" by (simp_all add: return_io_def)
  from perform_ok [OF p5] eq have
    l1: "log1 = ld @ [(CreateCommit (pr_repoName req) (pr_message req) t [cd_sha cd], Created nc)]"
    by simp
  show ?thesis
    using la lb lc ld l1 bl paths eq
    by (intro exI [of _ h] exI [of _ cd] exI [of _ bl] exI [of _ t]) simp
qed

lemma commit_build_ok:
  assumes "commit_build rt cl req (s, log) = (Inr nc, (s1, log1))"
  shows "\<exists>h cd b t.
     log1 = log @ [(ReposGet (cr_repoName req), Done),
                   (GetRef (cr_repoName req) (''heads/'' @ cr_branch req), Sha h),
                   (GetCommit (cr_repoName req) h, Commit cd),
                   (CreateBlob (cr_repoName req) (encodeContent rt (cr_content req)), Sha b),
                   (CreateTree (cr_repoName req) (cd_tree_sha cd)
                      [\<lparr>te_path = cr_path req, te_mode = ''100644'', te_type = ''blob'',
                        te_sha = b\<rparr>], Sha t),
                   (CreateCommit (cr_repoName req) (cr_message req) t [h], Created nc)]"
proof -
  from repo_guard_ok [OF assms [unfolded commit_build_def]]
  obtain s0 where a: "then_do (perform (GetRef (cr_repoName req) (''heads/'' @ cr_branch req)) Sha
                (git_getRef cl (cr_repoName req) (''heads/'' @ cr_branch req)))
       (\<lambda>latestCommitSha.
     then_do (perform (GetCommit (cr_repoName req) latestCommitSha) Commit
                (git_getCommit cl (cr_repoName req) latestCommitSha))
       (\<lambda>latestCommit.
     then_do (perform (CreateBlob (cr_repoName req) (encodeContent rt (cr_content req))) Sha
                (git_createBlob cl (cr_repoName req) (encodeContent rt (cr_content req))))
       (\<lambda>blob.
     then_do (perform (CreateTree (cr_repoName req) (cd_tree_sha latestCommit)
                         [\<lparr>te_path = cr_path req, te_mode = ''100644'', te_type = ''blob'',
                           te_sha = blob\<rparr>]) Sha
                (git_createTree cl (cr_repoName req) (cd_tree_sha latestCommit)
                   [\<lparr>te_path = cr_path req, te_mode = ''100644'', te_type = ''blob'',
                     te_sha = blob\<rparr>]))
       (\<lambda>newTree.
     perform (CreateCommit (cr_repoName req) (cr_message req) newTree [latestCommitSha]) Created
       (git_createCommit cl (cr_repoName req) (cr_message req) newTree [latestCommitSha])))))
       (s0, log @ [(ReposGet (cr_repoName req), Done)]) = (Inr nc, (s1, log1))"
    by blast
  from then_do_ok [OF a] obtain h sa la where
    p1: "perform (GetRef (cr_repoName req) (''heads/'' @ cr_branch req)) Sha
                (git_getRef cl (cr_repoName req) (''heads/'' @ cr_branch req))
           (s0, log @ [(ReposGet (cr_repoName req), Done)]) = (Inr h, (sa, la))"
    and b: "then_do (perform (GetCommit (cr_repoName req) h) Commit
                (git_getCommit cl (cr_repoName req) h))
       (\<lambda>latestCommit.
     then_do (perform (CreateBlob (cr_repoName req) (encodeContent rt (cr_content req))) Sha
                (git_createBlob cl (cr_repoName req) (encodeContent rt (cr_content req))))
       (\<lambda>blob.
     then_do (perform (CreateTree (cr_repoName req) (cd_tree_sha latestCommit)
                         [\<lparr>te_path = cr_path req, te_mode = ''100644'', te_type = ''blob'',
                           te_sha = blob\<rparr>]) Sha
                (git_createTree cl (cr_repoName req) (cd_tree_sha latestCommit)
                   [\<lparr>te_path = cr_path req, te_mode = ''100644'', te_type = ''blob'',
                     te_sha = blob\<rparr>]))
       (\<lambda>newTree.
     perform (CreateCommit (cr_repoName req) (cr_message req) newTree [h]) Created
       (git_createCommit cl (cr_repoName req) (cr_message req) newTree [h]))))
       (sa, la) = (Inr nc, (s1, log1))"
    by blast
  from perform_ok [OF p1] have la: "la = log @ [(ReposGet (cr_repoName req), Done)] @
      [(GetRef (cr_repoName req) (''heads/'' @ cr_branch req), Sha h)]" by simp
  from then_do_ok [OF b] obtain cd sb lb where
    p2: "perform (GetCommit (cr_repoName req) h) Commit (git_getCommit cl (cr_repoName req) h)
           (sa, la) = (Inr cd, (sb, lb))"
    and c: "then_do (perform (CreateBlob (cr_repoName req) (encodeContent rt (cr_content req))) Sha
                (git_createBlob cl (cr_repoName req) (encodeContent rt (cr_content req))))
       (\<lambda>blob.
     then_do (perform (CreateTree (cr_repoName req) (cd_tree_sha cd)
                         [\<lparr>te_path = cr_path req, te_mode = ''100644'', te_type = ''blob'',
                           te_sha = blob\<rparr>]) Sha
                (git_createTree cl (cr_repoName req) (cd_tree_sha cd)
                   [\<lparr>te_path = cr_path req, te_mode = ''100644'', te_type = ''blob'',
                     te_sha = blob\<rparr>]))
       (\<lambda>newTree.
     perform (CreateCommit (cr_repoName req) (cr_message req) newTree [h]) Created
       (git_createCommit cl (cr_repoName req) (cr_message req) newTree [h])))
       (sb, lb) = (Inr nc, (s1, log1))"
    by blast
  from perform_ok [OF p2] have lb: "lb = la @ [(GetCommit (cr_repoName req) h, Commit cd)]" by simp
  from then_do_ok [OF c] obtain bsha sc lc where
    p3: "perform (CreateBlob (cr_repoName req) (encodeContent rt (cr_content req))) Sha
                (git_createBlob cl (cr_repoName req) (encodeContent rt (cr_content req)))
           (sb, lb) = (Inr bsha, (sc, lc))"
    and d: "then_do (perform (CreateTree (cr_repoName req) (cd_tree_sha cd)
                         [\<lparr>te_path = cr_path req, te_mode = ''100644'', te_type = ''blob'',
                           te_sha = bsha\<rparr>]) Sha
                (git_createTree cl (cr_repoName req) (cd_tree_sha cd)
                   [\<lparr>te_path = cr_path req, te_mode = ''100644'', te_type = ''blob'',
                     te_sha = bsha\<rparr>]))
       (\<lambda>newTree.
     perform (CreateCommit (cr_repoName req) (cr_message req) newTree [h]) Created
       (git_createCommit cl (cr_repoName req) (cr_message req) newTree [h]))
       (sc, lc) = (Inr nc, (s1, log1))"
    by blast
  from perform_ok [OF p3] have
    lc: "lc = lb @ [(CreateBlob (cr_repoName req) (encodeContent rt (cr_content req)), Sha bsha)]"
    by simp
  from then_do_ok [OF d] obtain t sd ld where
    p4: "perform (CreateTree (cr_repoName req) (cd_tree_sha cd)
                         [\<lparr>te_path = cr_path req, te_mode = ''100644'', te_type = ''blob'',
                           te_sha = bsha\<rparr>]) Sha
                (git_createTree cl (cr_repoName req) (cd_tree_sha cd)
                   [\<lparr>te_path = cr_path req, te_mode = ''100644'', te_type = ''blob'',
                     te_sha = bsha\<rparr>]) (sc, lc) = (Inr t, (sd, ld))"
    and e: "perform (CreateCommit (cr_repoName req) (cr_message req) t [h]) Created
       (git_createCommit cl (cr_repoName req) (cr_message req) t [h]) (sd, ld)
         = (Inr nc, (s1, log1))"
    by blast
  from perform_ok [OF p4] have
    ld: "ld = lc @ [(CreateTree (cr_repoName req) (cd_tree_sha cd)
                      [\<lparr>te_path = cr_path req, te_mode = ''100644'', te_type = ''blob'',
                        te_sha = bsha\<rparr>], Sha t)]"
    by simp
  from perform_ok [OF e] have
    l1: "log1 = ld @ [(CreateCommit (cr_repoName req) (cr_message req) t [h], Created nc)]"
    by simp
  show ?thesis
    using la lb lc ld l1
    by (intro exI [of _ h] exI [of _ cd] exI [of _ bsha] exI [of _ t]) simp
qed

text \<open>The last step of both routes.\<close>

lemma final_call_result:
  assumes "then_do (perform c (\<lambda>u. Done) op) (\<lambda>u. return_io v) (s1, log1) = (res, (s', log))"
  shows "(\<exists>e. op s1 = (Inl e, s') \<and> res = Inl (Threw e) \<and> log = log1 @ [(c, Failed e)])
       \<or> (op s1 = (Inr (), s') \<and> res = Inr v \<and> log = log1 @ [(c, Done)])"
  using assms
  by (auto simp: then_do_def perform_def return_io_def split: prod.splits sum.splits)

lemma push_files_result:
  assumes "validate_pushFiles body = Inr req" "push_try rt cl req w = (res, w')"
  shows "push_files rt cl body w =
     ((case res of
         Inr ok \<Rightarrow> Ok ok
       | Inl (Replied st msg) \<Rightarrow> Err st msg NoDetails
       | Inl (Threw e) \<Rightarrow> Err 500 ''Failed to push files'' (Upstream (e_message e))), w')"
  using assms by (simp add: push_files_def split: sum.splits abort.splits)

lemma commit_result:
  assumes "validate_commit body = Inr req" "commit_try rt cl req w = (res, w')"
  shows "commit rt cl body w =
     ((case res of
         Inr ok \<Rightarrow> Ok ok
       | Inl (Replied st msg) \<Rightarrow> Err st msg NoDetails
       | Inl (Threw e) \<Rightarrow> Err 500 ''Failed to commit file'' (Upstream (e_message e))), w')"
  using assms by (simp add: commit_def split: sum.splits abort.splits)

lemma push_reaches_update:
  assumes run: "push_files rt cl body (s, []) = (resp, (s', log))"
    and mem: "(UpdateRef r ref sha, rep) \<in> set log"
  shows "\<exists>req h cd bl entries t nc s1.
        validate_pushFiles body = Inr req \<and> r = pr_repoName req \<and> ref = ''heads/'' @ pr_branch req
      \<and> log = [(ReposGet r, Done), (GetRef r ref, Sha h), (GetCommit r h, Commit cd)] @ bl @
              [(CreateTree r (cd_tree_sha cd) entries, Sha t),
               (CreateCommit r (pr_message req) t [cd_sha cd], Created nc),
               (UpdateRef r ref sha, rep)]
      \<and> list_all (\<lambda>e. \<exists>c x. e = (CreateBlob r c, Sha x)) bl
      \<and> sha = nc_sha nc
      \<and> push_build rt cl req (s, []) = (Inr (entries, nc), (s1, butlast log))
      \<and> (case git_updateRef cl r ref sha s1 of
           (Inl e, s2) \<Rightarrow> rep = Failed e \<and> s' = s2
              \<and> resp = Err 500 ''Failed to push files'' (Upstream (e_message e))
         | (Inr u, s2) \<Rightarrow> rep = Done \<and> s' = s2
              \<and> resp = Ok \<lparr>po_commit = nc, po_files = map (\<lambda>b. (te_path b, te_sha b)) entries,
                           po_branch = pr_branch req\<rparr>)"
proof -
  from mem have "log \<noteq> snd (s, [])" by auto
  with run push_files_run [of rt cl body "(s, [])" resp s' log]
  obtain req res where v: "validate_pushFiles body = Inr req"
    and t: "push_try rt cl req (s, []) = (res, (s', log))" by blast
  let ?r = "pr_repoName req" and ?ref = "''heads/'' @ pr_branch req"
  from then_do_cases [OF t [unfolded push_try_shape]]
  show ?thesis
  proof (elim disjE exE conjE)
    fix x assume "push_build rt cl req (s, []) = (Inl x, (s', log))"
    from quiet_from_empty(2) [OF quiet_push_build [OF refs_preserved_trivial] this] mem
    show ?thesis by (auto simp: is_update_ref_def)
  next
    fix a w1
    assume b: "push_build rt cl req (s, []) = (Inr a, w1)"
      and u: "then_do (perform (UpdateRef ?r ?ref (nc_sha (snd a))) (\<lambda>u. Done)
                  (git_updateRef cl ?r ?ref (nc_sha (snd a))))
               (\<lambda>u. return_io \<lparr>po_commit = snd a, po_files = map (\<lambda>b. (te_path b, te_sha b)) (fst a),
                          po_branch = pr_branch req\<rparr>) w1 = (res, (s', log))"
    obtain entries nc where a: "a = (entries, nc)" by (cases a)
    obtain s1 log1 where w1: "w1 = (s1, log1)" by (cases w1)
    from push_build_ok [OF b [unfolded a w1]] obtain h cd bl tr where
      l1: "log1 = [] @ [(ReposGet ?r, Done), (GetRef ?r ?ref, Sha h), (GetCommit ?r h, Commit cd)] @ bl @
                  [(CreateTree ?r (cd_tree_sha cd) entries, Sha tr),
                   (CreateCommit ?r (pr_message req) tr [cd_sha cd], Created nc)]"
      and bl: "list_all (\<lambda>e. \<exists>c x. e = (CreateBlob ?r c, Sha x)) bl"
      by blast
    from quiet_from_empty(2) [OF quiet_push_build [OF refs_preserved_trivial] b [unfolded w1]]
    have nu: "\<forall>e\<in>set log1. \<not> is_update_ref (fst e)" .
    from final_call_result [OF u [unfolded w1]]
    have fin: "(\<exists>e. git_updateRef cl ?r ?ref (nc_sha (snd a)) s1 = (Inl e, s') \<and> res = Inl (Threw e)
                  \<and> log = log1 @ [(UpdateRef ?r ?ref (nc_sha (snd a)), Failed e)])
       \<or> (git_updateRef cl ?r ?ref (nc_sha (snd a)) s1 = (Inr (), s')
            \<and> res = Inr \<lparr>po_commit = snd a, po_files = map (\<lambda>b. (te_path b, te_sha b)) (fst a),
                          po_branch = pr_branch req\<rparr>
            \<and> log = log1 @ [(UpdateRef ?r ?ref (nc_sha (snd a)), Done)])" .
    then obtain rep' where lg: "log = log1 @ [(UpdateRef ?r ?ref (nc_sha nc), rep')]"
      using a by auto
    with mem nu have last: "r = ?r" "ref = ?ref" "sha = nc_sha nc" "rep = rep'"
      by (auto simp: is_update_ref_def)
    have bt: "butlast log = log1" using lg by simp
    have resp: "resp = (case res of
         Inr ok \<Rightarrow> Ok ok
       | Inl (Replied st msg) \<Rightarrow> Err st msg NoDetails
       | Inl (Threw e) \<Rightarrow> Err 500 ''Failed to push files'' (Upstream (e_message e)))"
      using push_files_result [OF v t] run by simp
    have verdict: "case git_updateRef cl r ref sha s1 of
           (Inl e, s2) \<Rightarrow> rep = Failed e \<and> s' = s2
              \<and> resp = Err 500 ''Failed to push files'' (Upstream (e_message e))
         | (Inr u, s2) \<Rightarrow> rep = Done \<and> s' = s2
              \<and> resp = Ok \<lparr>po_commit = nc, po_files = map (\<lambda>b. (te_path b, te_sha b)) entries,
                           po_branch = pr_branch req\<rparr>"
      using fin lg last a resp by auto
    show ?thesis
      using v last l1 lg bl verdict b [unfolded a w1] bt
      by (intro exI [of _ req] exI [of _ h] exI [of _ cd] exI [of _ bl] exI [of _ entries]
            exI [of _ tr] exI [of _ nc] exI [of _ s1]) simp
  qed
qed

lemma commit_reaches_update:
  assumes run: "commit rt cl body (s, []) = (resp, (s', log))"
    and mem: "(UpdateRef r ref sha, rep) \<in> set log"
  shows "\<exists>req h cd b t nc s1.
        validate_commit body = Inr req \<and> r = cr_repoName req \<and> ref = ''heads/'' @ cr_branch req
      \<and> log = [(ReposGet r, Done), (GetRef r ref, Sha h), (GetCommit r h, Commit cd),
               (CreateBlob r (encodeContent rt (cr_content req)), Sha b),
               (CreateTree r (cd_tree_sha cd)
                  [\<lparr>te_path = cr_path req, te_mode = ''100644'', te_type = ''blob'', te_sha = b\<rparr>],
                Sha t),
               (CreateCommit r (cr_message req) t [h], Created nc),
               (UpdateRef r ref sha, rep)]
      \<and> sha = nc_sha nc
      \<and> commit_build rt cl req (s, []) = (Inr nc, (s1, butlast log))
      \<and> (case git_updateRef cl r ref sha s1 of
           (Inl e, s2) \<Rightarrow> rep = Failed e \<and> s' = s2
              \<and> resp = Err 500 ''Failed to commit file'' (Upstream (e_message e))
         | (Inr u, s2) \<Rightarrow> rep = Done \<and> s' = s2 \<and> resp = Ok nc)"
proof -
  from mem have "log \<noteq> snd (s, [])" by auto
  with run commit_run [of rt cl body "(s, [])" resp s' log]
  obtain req res where v: "validate_commit body = Inr req"
    and t: "commit_try rt cl req (s, []) = (res, (s', log))" by blast
  let ?r = "cr_repoName req" and ?ref = "''heads/'' @ cr_branch req"
  from then_do_cases [OF t [unfolded commit_try_def]]
  show ?thesis
  proof (elim disjE exE conjE)
    fix x assume "commit_build rt cl req (s, []) = (Inl x, (s', log))"
    from quiet_from_empty(2) [OF quiet_commit_build [OF refs_preserved_trivial] this] mem
    show ?thesis by (auto simp: is_update_ref_def)
  next
    fix nc w1
    assume b: "commit_build rt cl req (s, []) = (Inr nc, w1)"
      and u: "then_do (perform (UpdateRef ?r ?ref (nc_sha nc)) (\<lambda>u. Done)
                  (git_updateRef cl ?r ?ref (nc_sha nc)))
               (\<lambda>u. return_io nc) w1 = (res, (s', log))"
    obtain s1 log1 where w1: "w1 = (s1, log1)" by (cases w1)
    from commit_build_ok [OF b [unfolded w1]] obtain h cd bsha tr where
      l1: "log1 = [] @ [(ReposGet ?r, Done), (GetRef ?r ?ref, Sha h), (GetCommit ?r h, Commit cd),
                   (CreateBlob ?r (encodeContent rt (cr_content req)), Sha bsha),
                   (CreateTree ?r (cd_tree_sha cd)
                      [\<lparr>te_path = cr_path req, te_mode = ''100644'', te_type = ''blob'',
                        te_sha = bsha\<rparr>], Sha tr),
                   (CreateCommit ?r (cr_message req) tr [h], Created nc)]"
      by blast
    from quiet_from_empty(2) [OF quiet_commit_build [OF refs_preserved_trivial] b [unfolded w1]]
    have nu: "\<forall>e\<in>set log1. \<not> is_update_ref (fst e)" .
    from final_call_result [OF u [unfolded w1]]
    have fin: "(\<exists>e. git_updateRef cl ?r ?ref (nc_sha nc) s1 = (Inl e, s') \<and> res = Inl (Threw e)
                  \<and> log = log1 @ [(UpdateRef ?r ?ref (nc_sha nc), Failed e)])
       \<or> (git_updateRef cl ?r ?ref (nc_sha nc) s1 = (Inr (), s')
            \<and> res = Inr nc
            \<and> log = log1 @ [(UpdateRef ?r ?ref (nc_sha nc), Done)])" .
    then obtain rep' where lg: "log = log1 @ [(UpdateRef ?r ?ref (nc_sha nc), rep')]"
      by auto
    with mem nu have last: "r = ?r" "ref = ?ref" "sha = nc_sha nc" "rep = rep'"
      by (auto simp: is_update_ref_def)
    have bt: "butlast log = log1" using lg by simp
    have resp: "resp = (case res of
         Inr ok \<Rightarrow> Ok ok
       | Inl (Replied st msg) \<Rightarrow> Err st msg NoDetails
       | Inl (Threw e) \<Rightarrow> Err 500 ''Failed to commit file'' (Upstream (e_message e)))"
      using commit_result [OF v t] run by simp
    have verdict: "case git_updateRef cl r ref sha s1 of
           (Inl e, s2) \<Rightarrow> rep = Failed e \<and> s' = s2
              \<and> resp = Err 500 ''Failed to commit file'' (Upstream (e_message e))
         | (Inr u, s2) \<Rightarrow> rep = Done \<and> s' = s2 \<and> resp = Ok nc"
      using fin lg last resp by auto
    show ?thesis
      using v last l1 lg verdict b [unfolded w1] bt
      by (intro exI [of _ req] exI [of _ h] exI [of _ cd] exI [of _ bsha]
            exI [of _ tr] exI [of _ nc] exI [of _ s1]) simp
  qed
qed

subsection \<open>A run whose first five steps succeed reaches the ref update\<close>

lemma loud_return: "loud (return_io a)"
  by (simp add: loud_def return_io_def)

lemma loud_perform: "loud (perform c shown op)"
  by (auto simp: loud_def perform_def failed_def split: prod.splits sum.splits)

lemma loud_then_do:
  assumes m: "loud m" and f: "\<And>a. loud (f a)"
  shows "loud (then_do m f)"
  unfolding loud_def
proof (intro allI impI)
  fix s log res s' log'
  assume run: "then_do m f (s, log) = (res, (s', log'))"
  obtain r1 s1 log1 where m1: "m (s, log) = (r1, (s1, log1))"
    by (metis prod.exhaust)
  from m m1 obtain new1 where l1: "log1 = log @ new1"
    and f1: "isl r1 \<longrightarrow> (\<exists>e\<in>set new1. failed (snd e))"
    unfolding loud_def by blast
  show "\<exists>new. log' = log @ new \<and> (isl res \<longrightarrow> (\<exists>e\<in>set new. failed (snd e)))"
  proof (cases r1)
    case (Inl x)
    with run m1 have "res = Inl x" "log' = log1"
      by (simp_all add: then_do_def)
    with l1 f1 Inl show ?thesis by auto
  next
    case (Inr a)
    with run m1 have "f a (s1, log1) = (res, (s', log'))"
      by (simp add: then_do_def)
    with f [of a] obtain new2 where l2: "log' = log1 @ new2"
      and f2: "isl res \<longrightarrow> (\<exists>e\<in>set new2. failed (snd e))"
      unfolding loud_def by blast
    have "log' = log @ (new1 @ new2)" using l1 l2 by simp
    moreover have "isl res \<longrightarrow> (\<exists>e\<in>set (new1 @ new2). failed (snd e))" using f2 by auto
    ultimately show ?thesis by blast
  qed
qed

lemma loud_create_blobs: "loud (create_blobs rt cl r fs)"
proof (induction fs)
  case Nil
  show ?case by (simp add: loud_return)
next
  case (Cons f fs)
  obtain path t where f: "f = (path, t)" by (cases f)
  let ?p = "perform (CreateBlob r (encodeContent rt t)) Sha
              (git_createBlob cl r (encodeContent rt t))"
  show ?case
    unfolding loud_def f
  proof (intro allI impI)
    fix s log res s' log'
    assume run: "create_blobs rt cl r ((path, t) # fs) (s, log) = (res, (s', log'))"
    obtain r1 s1 log1 where p1: "?p (s, log) = (r1, (s1, log1))" by (metis prod.exhaust)
    obtain r2 s2 log2 where p2: "create_blobs rt cl r fs (s1, log1) = (r2, (s2, log2))"
      by (metis prod.exhaust)
    from loud_perform [of "CreateBlob r (encodeContent rt t)" Sha
                          "git_createBlob cl r (encodeContent rt t)"] p1
    obtain new1 where l1: "log1 = log @ new1"
      and f1: "isl r1 \<longrightarrow> (\<exists>e\<in>set new1. failed (snd e))"
      unfolding loud_def by blast
    from Cons.IH p2 obtain new2 where l2: "log2 = log1 @ new2"
      and f2: "isl r2 \<longrightarrow> (\<exists>e\<in>set new2. failed (snd e))"
      unfolding loud_def by blast
    from run p1 p2 have w: "log' = log2"
      by (auto split: sum.splits)
    from run p1 p2 have bad: "isl res \<Longrightarrow> isl r1 \<or> isl r2"
      by (auto split: sum.splits)
    have "log' = log @ (new1 @ new2)" using w l1 l2 by simp
    moreover have "isl res \<longrightarrow> (\<exists>e\<in>set (new1 @ new2). failed (snd e))"
      using bad f1 f2 by auto
    ultimately show "\<exists>new. log' = log @ new \<and> (isl res \<longrightarrow> (\<exists>e\<in>set new. failed (snd e)))"
      by blast
  qed
qed

lemma loud_repo_guard:
  assumes "loud rest"
  shows "loud (then_do (checkRepoExists cl r) (\<lambda>exists. if \<not> exists then (\<lambda>w. (Inl x, w)) else rest))"
  unfolding loud_def
proof (intro allI impI)
  fix s log res s' log'
  assume run: "then_do (checkRepoExists cl r) (\<lambda>exists. if \<not> exists then (\<lambda>w. (Inl x, w)) else rest)
                 (s, log) = (res, (s', log'))"
  obtain r1 s1 where op: "repos_get cl r s = (r1, s1)" by (metis prod.exhaust)
  show "\<exists>new. log' = log @ new \<and> (isl res \<longrightarrow> (\<exists>e\<in>set new. failed (snd e)))"
  proof (cases r1)
    case (Inl e)
    with run op have "log' = log @ [(ReposGet r, Failed e)]"
      by (auto simp: then_do_def checkRepoExists_def perform_def split: if_splits)
    then show ?thesis by (simp add: failed_def)
  next
    case (Inr u)
    with run op have "rest (s1, log @ [(ReposGet r, Done)]) = (res, (s', log'))"
      by (simp add: then_do_def checkRepoExists_def perform_def)
    with assms obtain new2 where l2: "log' = (log @ [(ReposGet r, Done)]) @ new2"
      and f2: "isl res \<longrightarrow> (\<exists>e\<in>set new2. failed (snd e))"
      unfolding loud_def by blast
    have "log' = log @ ((ReposGet r, Done) # new2)" using l2 by simp
    moreover have "isl res \<longrightarrow> (\<exists>e\<in>set ((ReposGet r, Done) # new2). failed (snd e))"
      using f2 by auto
    ultimately show ?thesis by blast
  qed
qed

lemma loud_push_build: "loud (push_build rt cl req)"
  unfolding push_build_def
  by (intro loud_repo_guard loud_then_do loud_perform loud_create_blobs loud_return)

lemma loud_commit_build: "loud (commit_build rt cl req)"
  unfolding commit_build_def
  by (intro loud_repo_guard loud_then_do loud_perform loud_return)

lemma failed_build_log:
  assumes "loud build" "build (s, []) = (Inl x, (s1, log1))"
  shows "\<exists>e\<in>set log1. failed (snd e)"
  using assms unfolding loud_def by fastforce

lemma push_files_after_build:
  assumes v: "validate_pushFiles body = Inr req"
    and b: "push_build rt cl req w = (Inr (entries, nc), (s1, log1))"
  shows "push_files rt cl body w =
     (case git_updateRef cl (pr_repoName req) (''heads/'' @ pr_branch req) (nc_sha nc) s1 of
        (Inl e, s2) \<Rightarrow>
          (Err 500 ''Failed to push files'' (Upstream (e_message e)),
           (s2, log1 @ [(UpdateRef (pr_repoName req) (''heads/'' @ pr_branch req) (nc_sha nc),
                         Failed e)]))
      | (Inr u, s2) \<Rightarrow>
          (Ok \<lparr>po_commit = nc, po_files = map (\<lambda>b. (te_path b, te_sha b)) entries,
               po_branch = pr_branch req\<rparr>,
           (s2, log1 @ [(UpdateRef (pr_repoName req) (''heads/'' @ pr_branch req) (nc_sha nc),
                         Done)])))"
  using v b
  by (simp add: push_files_def push_try_def then_do_def perform_def return_io_def
           split: prod.splits sum.splits)

lemma commit_after_build:
  assumes v: "validate_commit body = Inr req"
    and b: "commit_build rt cl req w = (Inr nc, (s1, log1))"
  shows "commit rt cl body w =
     (case git_updateRef cl (cr_repoName req) (''heads/'' @ cr_branch req) (nc_sha nc) s1 of
        (Inl e, s2) \<Rightarrow>
          (Err 500 ''Failed to commit file'' (Upstream (e_message e)),
           (s2, log1 @ [(UpdateRef (cr_repoName req) (''heads/'' @ cr_branch req) (nc_sha nc),
                         Failed e)]))
      | (Inr u, s2) \<Rightarrow>
          (Ok nc,
           (s2, log1 @ [(UpdateRef (cr_repoName req) (''heads/'' @ cr_branch req) (nc_sha nc),
                         Done)])))"
  using v b
  by (simp add: commit_def commit_try_def then_do_def perform_def return_io_def
           split: prod.splits sum.splits)

lemma push_files_failed_build:
  assumes v: "validate_pushFiles body = Inr req"
    and b: "push_build rt cl req w = (Inl x, w1)"
  shows "snd (push_files rt cl body w) = w1"
  using v b
  by (simp add: push_files_def push_try_def then_do_def split: abort.splits)

lemma commit_failed_build:
  assumes v: "validate_commit body = Inr req"
    and b: "commit_build rt cl req w = (Inl x, w1)"
  shows "snd (commit rt cl body w) = w1"
  using v b
  by (simp add: commit_def commit_try_def then_do_def split: abort.splits)

lemma push_update_is_called:
  assumes v: "validate_pushFiles body = Inr req"
    and run: "push_files rt cl body (s, []) = (resp, (s', log))"
    and ok: "\<forall>e\<in>set log. failed (snd e) \<longrightarrow> is_update_ref (fst e)"
  shows "\<exists>entries nc s1 rep.
           push_build rt cl req (s, []) = (Inr (entries, nc), (s1, butlast log))
         \<and> log = butlast log
                 @ [(UpdateRef (pr_repoName req) (''heads/'' @ pr_branch req) (nc_sha nc), rep)]"
proof -
  obtain res s1 log1 where b: "push_build rt cl req (s, []) = (res, (s1, log1))"
    by (metis prod.exhaust)
  show ?thesis
  proof (cases res)
    case (Inl x)
    from push_files_failed_build [OF v b [unfolded Inl]] run have "log = log1" by simp
    moreover from failed_build_log [OF loud_push_build b [unfolded Inl]]
    have "\<exists>e\<in>set log1. failed (snd e)" .
    moreover from quiet_from_empty(2) [OF quiet_push_build [OF refs_preserved_trivial] b]
    have "\<forall>e\<in>set log1. \<not> is_update_ref (fst e)" .
    ultimately have False using ok by blast
    then show ?thesis ..
  next
    case (Inr a)
    obtain entries nc where a: "a = (entries, nc)" by (cases a)
    obtain r2 s2 where u: "git_updateRef cl (pr_repoName req) (''heads/'' @ pr_branch req)
                              (nc_sha nc) s1 = (r2, s2)"
      by (metis prod.exhaust)
    from push_files_after_build [OF v b [unfolded Inr a]] run u
    have "\<exists>rep. log = log1 @ [(UpdateRef (pr_repoName req) (''heads/'' @ pr_branch req)
                                   (nc_sha nc), rep)]"
      by (cases r2) auto
    then obtain rep where l: "log = log1 @ [(UpdateRef (pr_repoName req)
                                   (''heads/'' @ pr_branch req) (nc_sha nc), rep)]" ..
    then have bl: "butlast log = log1" by simp
    show ?thesis
      using b [unfolded Inr a] l bl by auto
  qed
qed

lemma commit_update_is_called:
  assumes v: "validate_commit body = Inr req"
    and run: "commit rt cl body (s, []) = (resp, (s', log))"
    and ok: "\<forall>e\<in>set log. failed (snd e) \<longrightarrow> is_update_ref (fst e)"
  shows "\<exists>nc s1 rep.
           commit_build rt cl req (s, []) = (Inr nc, (s1, butlast log))
         \<and> log = butlast log
                 @ [(UpdateRef (cr_repoName req) (''heads/'' @ cr_branch req) (nc_sha nc), rep)]"
proof -
  obtain res s1 log1 where b: "commit_build rt cl req (s, []) = (res, (s1, log1))"
    by (metis prod.exhaust)
  show ?thesis
  proof (cases res)
    case (Inl x)
    from commit_failed_build [OF v b [unfolded Inl]] run have "log = log1" by simp
    moreover from failed_build_log [OF loud_commit_build b [unfolded Inl]]
    have "\<exists>e\<in>set log1. failed (snd e)" .
    moreover from quiet_from_empty(2) [OF quiet_commit_build [OF refs_preserved_trivial] b]
    have "\<forall>e\<in>set log1. \<not> is_update_ref (fst e)" .
    ultimately have False using ok by blast
    then show ?thesis ..
  next
    case (Inr nc)
    obtain r2 s2 where u: "git_updateRef cl (cr_repoName req) (''heads/'' @ cr_branch req)
                              (nc_sha nc) s1 = (r2, s2)"
      by (metis prod.exhaust)
    from commit_after_build [OF v b [unfolded Inr]] run u
    have "\<exists>rep. log = log1 @ [(UpdateRef (cr_repoName req) (''heads/'' @ cr_branch req)
                                   (nc_sha nc), rep)]"
      by (cases r2) auto
    then obtain rep where l: "log = log1 @ [(UpdateRef (cr_repoName req)
                                   (''heads/'' @ cr_branch req) (nc_sha nc), rep)]" ..
    then have bl: "butlast log = log1" by simp
    show ?thesis
      using b [unfolded Inr] l bl by auto
  qed
qed

subsection \<open>Runs against the model of the hosted service\<close>

lemmas gh_simps =
  github_def not_found_def unprocessable_def with_concurrent_writer_def reset_main_def
  gh_example_def push_example_def push_example_request_def example_commit_def

lemmas run_simps =
  push_files_def push_try_def push_build_def commit_def commit_try_def commit_build_def
  then_do_def return_io_def perform_def checkRepoExists_def validate_pushFiles_def
  validate_commit_def

lemma push_example_valid: "validate_pushFiles push_example = Inr push_example_request"
  by (simp add: validate_pushFiles_def push_example_def push_example_request_def eval_simps)

lemmas gh_more = commit_example_def example_build_log_def gh_built_def gh_pushed_def
  push_missing_branch_def commit_missing_branch_def push_nothing_def push_empty_file_def
  commit_example_request_def

lemma commit_example_valid: "validate_commit commit_example = Inr commit_example_request"
  by (simp add: validate_commit_def commit_example_def commit_example_request_def eval_simps)

lemma push_example_build:
  "push_build ascii_runtime github push_example_request (gh_example, [])
     = (Inr ([\<lparr>te_path = ''a.txt'', te_mode = ''100644'', te_type = ''blob'', te_sha = ''blob:MQ==''\<rparr>],
             example_commit),
        (gh_built, example_build_log))"
  by (simp add: run_simps gh_simps gh_more eval_simps)

lemma commit_example_build:
  "commit_build ascii_runtime github commit_example_request (gh_example, [])
     = (Inr example_commit, (gh_built, example_build_log))"
  by (simp add: run_simps gh_simps gh_more eval_simps)

lemma push_example_run:
  "push_files ascii_runtime github push_example (gh_example, []) =
     (Ok \<lparr>po_commit = example_commit, po_files = [(''a.txt'', ''blob:MQ=='')], po_branch = ''main''\<rparr>,
      (gh_pushed,
       example_build_log @ [(UpdateRef ''demo'' ''heads/main'' (nc_sha example_commit), Done)]))"
  by (simp add: run_simps gh_simps gh_more eval_simps)

lemma commit_example_run:
  "commit ascii_runtime github commit_example (gh_example, []) =
     (Ok example_commit,
      (gh_pushed,
       example_build_log @ [(UpdateRef ''demo'' ''heads/main'' (nc_sha example_commit), Done)]))"
  by (simp add: run_simps gh_simps gh_more eval_simps)

lemma push_missing_branch_run:
  "push_files ascii_runtime github push_missing_branch (gh_example, []) =
     (Err 500 ''Failed to push files'' (Upstream ''Not Found''),
      (gh_example, [(ReposGet ''demo'', Done), (GetRef ''demo'' ''heads/dev'', Failed not_found)]))"
  by (simp add: run_simps gh_simps gh_more eval_simps)

lemma commit_missing_branch_run:
  "commit ascii_runtime github commit_missing_branch (gh_example, []) =
     (Err 500 ''Failed to commit file'' (Upstream ''Not Found''),
      (gh_example, [(ReposGet ''demo'', Done), (GetRef ''demo'' ''heads/dev'', Failed not_found)]))"
  by (simp add: run_simps gh_simps gh_more eval_simps)

lemma github_refs_preserved: "refs_preserved github gh_refs"
  by (simp add: refs_preserved_def github_def)

lemma racing_build:
  "push_build ascii_runtime (with_concurrent_writer reset_main github) push_example_request
      (gh_example, [])
     = (Inr ([\<lparr>te_path = ''a.txt'', te_mode = ''100644'', te_type = ''blob'', te_sha = ''blob:MQ==''\<rparr>],
             example_commit),
        (gh_built\<lparr>gh_refs := [((''demo'', ''heads/main''), ''h0'')]\<rparr>, example_build_log))"
  by (simp add: run_simps gh_simps gh_more eval_simps)

lemma racing_push:
  "push_files ascii_runtime (with_concurrent_writer reset_main github) push_example (gh_example, [])
     = (Ok \<lparr>po_commit = example_commit, po_files = [(''a.txt'', ''blob:MQ=='')], po_branch = ''main''\<rparr>,
        (gh_pushed,
         example_build_log @ [(UpdateRef ''demo'' ''heads/main'' (nc_sha example_commit), Done)]))"
  by (simp add: run_simps gh_simps gh_more eval_simps)

lemma push_nothing_run:
  "push_files ascii_runtime github push_nothing (gh_example, []) =
     (Err 404 ''Repository nope not found'' NoDetails,
      (gh_example, [(ReposGet ''nope'', Failed not_found)]))"
  by (simp add: run_simps gh_simps gh_more eval_simps)

lemma push_empty_file_run:
  "push_files ascii_runtime github push_empty_file (gh_example, []) =
     (Err 400 ''Validation error'' (JoiEmpty ''files[].content''), (gh_example, []))"
  by (simp add: run_simps gh_simps gh_more eval_simps)

subsection \<open>The ref update\<close>

text \<open>
  C1 (amended). In both commit routes the final ref update is the plain call
  \<open>updateRef(repo, 'heads/' + branch, newSha)\<close>: no expected old value is passed, and the
  handler itself never compares the head seen in step 1 with the head at step 6.

  \<^item> A request whose record of calls contains an \<open>updateRef\<close> has made, in this order and all
    successfully, the repository lookup, \<open>getRef\<close> (answering the head \<open>h\<close>), \<open>getCommit\<close> of
    \<open>h\<close>, the blob creations, \<open>createTree\<close> on the tree of that commit and \<open>createCommit\<close> with
    that commit as the only parent, and then \<open>updateRef\<close> with the new commit's sha as its
    last call.
  \<^item> Conversely the call is always made once steps 1 to 5 have succeeded: when the request is
    valid and the steps up to \<open>createCommit\<close> return the new commit in backend state \<open>s1\<close>, the
    whole request is the call \<open>updateRef\<close> in \<open>s1\<close> appended to the record, answered with
    success if the backend accepts it and with 500, the route's generic failure text and the
    backend's message as details if it rejects it.
  \<^item> In terms of the record alone: a valid request none of whose calls other than \<open>updateRef\<close>
    failed ends with the \<open>updateRef\<close> call for the commit built by steps 1 to 5.
\<close>

theorem ref_update_is_plain_call:
  "(push_files rt cl body (s, []) = (resp, (s', log)) \<and> (UpdateRef r ref sha, rep) \<in> set log
    \<longrightarrow> (\<exists>req h cd bl entries t nc s1.
        validate_pushFiles body = Inr req \<and> r = pr_repoName req \<and> ref = ''heads/'' @ pr_branch req
      \<and> log = [(ReposGet r, Done), (GetRef r ref, Sha h), (GetCommit r h, Commit cd)] @ bl @
              [(CreateTree r (cd_tree_sha cd) entries, Sha t),
               (CreateCommit r (pr_message req) t [cd_sha cd], Created nc),
               (UpdateRef r ref sha, rep)]
      \<and> list_all (\<lambda>e. \<exists>c x. e = (CreateBlob r c, Sha x)) bl
      \<and> sha = nc_sha nc
      \<and> push_build rt cl req (s, []) = (Inr (entries, nc), (s1, butlast log))
      \<and> (case git_updateRef cl r ref sha s1 of
           (Inl e, s2) \<Rightarrow> rep = Failed e \<and> s' = s2
              \<and> resp = Err 500 ''Failed to push files'' (Upstream (e_message e))
         | (Inr u, s2) \<Rightarrow> rep = Done \<and> s' = s2
              \<and> resp = Ok \<lparr>po_commit = nc, po_files = map (\<lambda>b. (te_path b, te_sha b)) entries,
                           po_branch = pr_branch req\<rparr>)))
   \<and> (commit rt cl cbody (s, []) = (cresp, (cs', clog)) \<and> (UpdateRef r ref sha, rep) \<in> set clog
    \<longrightarrow> (\<exists>req h cd b t nc s1.
        validate_commit cbody = Inr req \<and> r = cr_repoName req \<and> ref = ''heads/'' @ cr_branch req
      \<and> clog = [(ReposGet r, Done), (GetRef r ref, Sha h), (GetCommit r h, Commit cd),
               (CreateBlob r (encodeContent rt (cr_content req)), Sha b),
               (CreateTree r (cd_tree_sha cd)
                  [\<lparr>te_path = cr_path req, te_mode = ''100644'', te_type = ''blob'', te_sha = b\<rparr>],
                Sha t),
               (CreateCommit r (cr_message req) t [h], Created nc),
               (UpdateRef r ref sha, rep)]
      \<and> sha = nc_sha nc
      \<and> commit_build rt cl req (s, []) = (Inr nc, (s1, butlast clog))
      \<and> (case git_updateRef cl r ref sha s1 of
           (Inl e, s2) \<Rightarrow> rep = Failed e \<and> cs' = s2
              \<and> cresp = Err 500 ''Failed to commit file'' (Upstream (e_message e))
         | (Inr u, s2) \<Rightarrow> rep = Done \<and> cs' = s2 \<and> cresp = Ok nc)))
   \<and> (validate_pushFiles body = Inr preq
        \<and> push_build rt cl preq (s, []) = (Inr (pentries, pnc), (pst, plog))
    \<longrightarrow> push_files rt cl body (s, []) =
         (case git_updateRef cl (pr_repoName preq) (''heads/'' @ pr_branch preq) (nc_sha pnc) pst of
            (Inl e, s2) \<Rightarrow>
              (Err 500 ''Failed to push files'' (Upstream (e_message e)),
               (s2, plog @ [(UpdateRef (pr_repoName preq) (''heads/'' @ pr_branch preq)
                                (nc_sha pnc), Failed e)]))
          | (Inr u, s2) \<Rightarrow>
              (Ok \<lparr>po_commit = pnc, po_files = map (\<lambda>b. (te_path b, te_sha b)) pentries,
                   po_branch = pr_branch preq\<rparr>,
               (s2, plog @ [(UpdateRef (pr_repoName preq) (''heads/'' @ pr_branch preq)
                                (nc_sha pnc), Done)]))))
   \<and> (validate_commit cbody = Inr creq
        \<and> commit_build rt cl creq (s, []) = (Inr cnc, (cst, cblog))
    \<longrightarrow> commit rt cl cbody (s, []) =
         (case git_updateRef cl (cr_repoName creq) (''heads/'' @ cr_branch creq) (nc_sha cnc) cst of
            (Inl e, s2) \<Rightarrow>
              (Err 500 ''Failed to commit file'' (Upstream (e_message e)),
               (s2, cblog @ [(UpdateRef (cr_repoName creq) (''heads/'' @ cr_branch creq)
                                (nc_sha cnc), Failed e)]))
          | (Inr u, s2) \<Rightarrow>
              (Ok cnc,
               (s2, cblog @ [(UpdateRef (cr_repoName creq) (''heads/'' @ cr_branch creq)
                                (nc_sha cnc), Done)]))))
   \<and> (validate_pushFiles body = Inr preq \<and> push_files rt cl body (s, []) = (resp, (s', log))
        \<and> (\<forall>e\<in>set log. failed (snd e) \<longrightarrow> is_update_ref (fst e))
    \<longrightarrow> (\<exists>entries nc s1 rep'.
           push_build rt cl preq (s, []) = (Inr (entries, nc), (s1, butlast log))
         \<and> log = butlast log
                 @ [(UpdateRef (pr_repoName preq) (''heads/'' @ pr_branch preq) (nc_sha nc), rep')]))
   \<and> (validate_commit cbody = Inr creq \<and> commit rt cl cbody (s, []) = (cresp, (cs', clog))
        \<and> (\<forall>e\<in>set clog. failed (snd e) \<longrightarrow> is_update_ref (fst e))
    \<longrightarrow> (\<exists>nc s1 rep'.
           commit_build rt cl creq (s, []) = (Inr nc, (s1, butlast clog))
         \<and> clog = butlast clog
                 @ [(UpdateRef (cr_repoName creq) (''heads/'' @ cr_branch creq) (nc_sha nc), rep')]))"
proof (intro conjI impI)
  assume "push_files rt cl body (s, []) = (resp, (s', log)) \<and> (UpdateRef r ref sha, rep) \<in> set log"
  then show "\<exists>req h cd bl entries t nc s1.
        validate_pushFiles body = Inr req \<and> r = pr_repoName req \<and> ref = ''heads/'' @ pr_branch req
      \<and> log = [(ReposGet r, Done), (GetRef r ref, Sha h), (GetCommit r h, Commit cd)] @ bl @
              [(CreateTree r (cd_tree_sha cd) entries, Sha t),
               (CreateCommit r (pr_message req) t [cd_sha cd], Created nc),
               (UpdateRef r ref sha, rep)]
      \<and> list_all (\<lambda>e. \<exists>c x. e = (CreateBlob r c, Sha x)) bl
      \<and> sha = nc_sha nc
      \<and> push_build rt cl req (s, []) = (Inr (entries, nc), (s1, butlast log))
      \<and> (case git_updateRef cl r ref sha s1 of
           (Inl e, s2) \<Rightarrow> rep = Failed e \<and> s' = s2
              \<and> resp = Err 500 ''Failed to push files'' (Upstream (e_message e))
         | (Inr u, s2) \<Rightarrow> rep = Done \<and> s' = s2
              \<and> resp = Ok \<lparr>po_commit = nc, po_files = map (\<lambda>b. (te_path b, te_sha b)) entries,
                           po_branch = pr_branch req\<rparr>)"
    using push_reaches_update [of rt cl body s resp s' log r ref sha rep] by blast
next
  assume "commit rt cl cbody (s, []) = (cresp, (cs', clog)) \<and> (UpdateRef r ref sha, rep) \<in> set clog"
  then show "\<exists>req h cd b t nc s1.
        validate_commit cbody = Inr req \<and> r = cr_repoName req \<and> ref = ''heads/'' @ cr_branch req
      \<and> clog = [(ReposGet r, Done), (GetRef r ref, Sha h), (GetCommit r h, Commit cd),
               (CreateBlob r (encodeContent rt (cr_content req)), Sha b),
               (CreateTree r (cd_tree_sha cd)
                  [\<lparr>te_path = cr_path req, te_mode = ''100644'', te_type = ''blob'', te_sha = b\<rparr>],
                Sha t),
               (CreateCommit r (cr_message req) t [h], Created nc),
               (UpdateRef r ref sha, rep)]
      \<and> sha = nc_sha nc
      \<and> commit_build rt cl req (s, []) = (Inr nc, (s1, butlast clog))
      \<and> (case git_updateRef cl r ref sha s1 of
           (Inl e, s2) \<Rightarrow> rep = Failed e \<and> cs' = s2
              \<and> cresp = Err 500 ''Failed to commit file'' (Upstream (e_message e))
         | (Inr u, s2) \<Rightarrow> rep = Done \<and> cs' = s2 \<and> cresp = Ok nc)"
    using commit_reaches_update [of rt cl cbody s cresp cs' clog r ref sha rep] by blast
next
  assume "validate_pushFiles body = Inr preq
        \<and> push_build rt cl preq (s, []) = (Inr (pentries, pnc), (pst, plog))"
  then show "push_files rt cl body (s, []) =
         (case git_updateRef cl (pr_repoName preq) (''heads/'' @ pr_branch preq) (nc_sha pnc) pst of
            (Inl e, s2) \<Rightarrow>
              (Err 500 ''Failed to push files'' (Upstream (e_message e)),
               (s2, plog @ [(UpdateRef (pr_repoName preq) (''heads/'' @ pr_branch preq)
                                (nc_sha pnc), Failed e)]))
          | (Inr u, s2) \<Rightarrow>
              (Ok \<lparr>po_commit = pnc, po_files = map (\<lambda>b. (te_path b, te_sha b)) pentries,
                   po_branch = pr_branch preq\<rparr>,
               (s2, plog @ [(UpdateRef (pr_repoName preq) (''heads/'' @ pr_branch preq)
                                (nc_sha pnc), Done)])))"
    using push_files_after_build [of body preq rt cl "(s, [])" pentries pnc pst plog] by blast
next
  assume "validate_commit cbody = Inr creq
        \<and> commit_build rt cl creq (s, []) = (Inr cnc, (cst, cblog))"
  then show "commit rt cl cbody (s, []) =
         (case git_updateRef cl (cr_repoName creq) (''heads/'' @ cr_branch creq) (nc_sha cnc) cst of
            (Inl e, s2) \<Rightarrow>
              (Err 500 ''Failed to commit file'' (Upstream (e_message e)),
               (s2, cblog @ [(UpdateRef (cr_repoName creq) (''heads/'' @ cr_branch creq)
                                (nc_sha cnc), Failed e)]))
          | (Inr u, s2) \<Rightarrow>
              (Ok cnc,
               (s2, cblog @ [(UpdateRef (cr_repoName creq) (''heads/'' @ cr_branch creq)
                                (nc_sha cnc), Done)])))"
    using commit_after_build [of cbody creq rt cl "(s, [])" cnc cst cblog] by blast
next
  assume "validate_pushFiles body = Inr preq \<and> push_files rt cl body (s, []) = (resp, (s', log))
        \<and> (\<forall>e\<in>set log. failed (snd e) \<longrightarrow> is_update_ref (fst e))"
  then show "\<exists>entries nc s1 rep'.
           push_build rt cl preq (s, []) = (Inr (entries, nc), (s1, butlast log))
         \<and> log = butlast log
                 @ [(UpdateRef (pr_repoName preq) (''heads/'' @ pr_branch preq) (nc_sha nc), rep')]"
    using push_update_is_called [of body preq rt cl s resp s' log] by blast
next
  assume "validate_commit cbody = Inr creq \<and> commit rt cl cbody (s, []) = (cresp, (cs', clog))
        \<and> (\<forall>e\<in>set clog. failed (snd e) \<longrightarrow> is_update_ref (fst e))"
  then show "\<exists>nc s1 rep'.
           commit_build rt cl creq (s, []) = (Inr nc, (s1, butlast clog))
         \<and> clog = butlast clog
                 @ [(UpdateRef (cr_repoName creq) (''heads/'' @ cr_branch creq) (nc_sha nc), rep')]"
    using commit_update_is_called [of cbody creq rt cl s cresp cs' clog] by blast
qed

text \<open>
  The example push and the example single-file commit, both accepted by the backend: steps
  1 to 5 succeed, so the update is called, and the record that contains it has the stated
  shape.
\<close>

theorem ref_update_is_plain_call_witness:
  "validate_pushFiles push_example = Inr push_example_request
   \<and> push_build ascii_runtime github push_example_request (gh_example, [])
     = (Inr ([\<lparr>te_path = ''a.txt'', te_mode = ''100644'', te_type = ''blob'', te_sha = ''blob:MQ==''\<rparr>],
             example_commit),
        (gh_built, example_build_log))
   \<and> validate_commit commit_example = Inr commit_example_request
   \<and> commit_build ascii_runtime github commit_example_request (gh_example, [])
     = (Inr example_commit, (gh_built, example_build_log))
   \<and> push_files ascii_runtime github push_example (gh_example, [])
     = (Ok \<lparr>po_commit = example_commit, po_files = [(''a.txt'', ''blob:MQ=='')], po_branch = ''main''\<rparr>,
        (gh_pushed,
         example_build_log @ [(UpdateRef ''demo'' ''heads/main'' (nc_sha example_commit), Done)]))
   \<and> commit ascii_runtime github commit_example (gh_example, [])
     = (Ok example_commit,
        (gh_pushed,
         example_build_log @ [(UpdateRef ''demo'' ''heads/main'' (nc_sha example_commit), Done)]))
   \<and> filter (\<lambda>e. failed (snd e))
        (example_build_log @ [(UpdateRef ''demo'' ''heads/main'' (nc_sha example_commit), Done)])
      = []
   \<and> (\<exists>entries nc s1 rep.
         push_build ascii_runtime github push_example_request (gh_example, [])
           = (Inr (entries, nc), (s1, example_build_log))
       \<and> example_build_log @ [(UpdateRef ''demo'' ''heads/main'' (nc_sha example_commit), Done)]
           = example_build_log @ [(UpdateRef ''demo'' ''heads/main'' (nc_sha nc), rep)])
   \<and> (\<exists>nc s1 rep.
         commit_build ascii_runtime github commit_example_request (gh_example, [])
           = (Inr nc, (s1, example_build_log))
       \<and> example_build_log @ [(UpdateRef ''demo'' ''heads/main'' (nc_sha example_commit), Done)]
           = example_build_log @ [(UpdateRef ''demo'' ''heads/main'' (nc_sha nc), rep)])
   \<and> (\<exists>req entries nc s1. validate_pushFiles push_example = Inr req
         \<and> push_build ascii_runtime github req (gh_example, [])
             = (Inr (entries, nc), (s1, example_build_log))
         \<and> nc_sha nc = nc_sha example_commit
         \<and> git_updateRef github ''demo'' ''heads/main'' (nc_sha example_commit) s1
             = (Inr (), gh_pushed))
   \<and> (\<exists>req nc s1. validate_commit commit_example = Inr req
         \<and> commit_build ascii_runtime github req (gh_example, []) = (Inr nc, (s1, example_build_log))
         \<and> nc_sha nc = nc_sha example_commit
         \<and> git_updateRef github ''demo'' ''heads/main'' (nc_sha example_commit) s1
             = (Inr (), gh_pushed))"
proof -
  let ?u = "(UpdateRef ''demo'' ''heads/main'' (nc_sha example_commit), Done)"
  let ?log = "example_build_log @ [?u]"
  note w = ref_update_is_plain_call
             [where rt = ascii_runtime and cl = github and body = push_example and s = gh_example
                and s' = gh_pushed and log = ?log
                and resp = "Ok \<lparr>po_commit = example_commit, po_files = [(''a.txt'', ''blob:MQ=='')],
                               po_branch = ''main''\<rparr>"
                and cbody = commit_example and cresp = "Ok example_commit" and cs' = gh_pushed
                and clog = ?log
                and r = "''demo''" and ref = "''heads/main''" and sha = "nc_sha example_commit"
                and rep = Done
                and preq = push_example_request
                and pentries = "[\<lparr>te_path = ''a.txt'', te_mode = ''100644'', te_type = ''blob'',
                                  te_sha = ''blob:MQ==''\<rparr>]"
                and pnc = example_commit and pst = gh_built and plog = example_build_log
                and creq = commit_example_request and cnc = example_commit and cst = gh_built
                and cblog = example_build_log]
  note w1 = w [THEN conjunct1]
  note w2 = w [THEN conjunct2, THEN conjunct1]
  note w3 = w [THEN conjunct2, THEN conjunct2, THEN conjunct1]
  note w4 = w [THEN conjunct2, THEN conjunct2, THEN conjunct2, THEN conjunct1]
  note w5 = w [THEN conjunct2, THEN conjunct2, THEN conjunct2, THEN conjunct2, THEN conjunct1]
  note w6 = w [THEN conjunct2, THEN conjunct2, THEN conjunct2, THEN conjunct2, THEN conjunct2]
  have upd: "git_updateRef github ''demo'' ''heads/main'' (nc_sha example_commit) gh_built
               = (Inr (), gh_pushed)"
    by (simp add: gh_simps gh_more)
  have push_run: "push_files ascii_runtime github push_example (gh_example, [])
     = (Ok \<lparr>po_commit = example_commit, po_files = [(''a.txt'', ''blob:MQ=='')], po_branch = ''main''\<rparr>,
        (gh_pushed, ?log))"
    using w3 [THEN mp, OF conjI [OF push_example_valid push_example_build]] upd
    by (simp add: push_example_request_def)
  have commit_run: "commit ascii_runtime github commit_example (gh_example, [])
     = (Ok example_commit, (gh_pushed, ?log))"
    using w4 [THEN mp, OF conjI [OF commit_example_valid commit_example_build]] upd
    by (simp add: commit_example_request_def)
  have no_failure: "filter (\<lambda>e. failed (snd e)) ?log = []"
    by (simp add: example_build_log_def failed_def)
  then have quiet_log: "\<forall>e\<in>set ?log. failed (snd e) \<longrightarrow> is_update_ref (fst e)"
    unfolding filter_empty_conv by blast
  have mem: "?u \<in> set ?log" by simp
  have bl: "butlast ?log = example_build_log" by simp
  have verdict: "git_updateRef github ''demo'' ''heads/main'' (nc_sha example_commit) s1
                   = (Inr (), gh_pushed)"
    if "case git_updateRef github ''demo'' ''heads/main'' (nc_sha example_commit) s1 of
           (Inl e, s2) \<Rightarrow> Done = Failed e \<and> gh_pushed = s2 \<and> P e
         | (Inr u, s2) \<Rightarrow> Done = Done \<and> gh_pushed = s2 \<and> Q" for s1 P Q
    using that by (auto split: prod.splits sum.splits)
  from w1 [THEN mp, OF conjI [OF push_run mem]]
  obtain req entries nc s1 where p:
    "validate_pushFiles push_example = Inr req"
    "push_build ascii_runtime github req (gh_example, []) = (Inr (entries, nc), (s1, butlast ?log))"
    "nc_sha example_commit = nc_sha nc"
    "git_updateRef github ''demo'' ''heads/main'' (nc_sha example_commit) s1 = (Inr (), gh_pushed)"
    by (elim exE conjE) (frule verdict, blast)
  from w2 [THEN mp, OF conjI [OF commit_run mem]]
  obtain creq cnc cs1 where c:
    "validate_commit commit_example = Inr creq"
    "commit_build ascii_runtime github creq (gh_example, []) = (Inr cnc, (cs1, butlast ?log))"
    "nc_sha example_commit = nc_sha cnc"
    "git_updateRef github ''demo'' ''heads/main'' (nc_sha example_commit) cs1 = (Inr (), gh_pushed)"
    by (elim exE conjE) (frule verdict, blast)
  from p have P: "\<exists>req entries nc s1. validate_pushFiles push_example = Inr req
         \<and> push_build ascii_runtime github req (gh_example, [])
             = (Inr (entries, nc), (s1, example_build_log))
         \<and> nc_sha nc = nc_sha example_commit
         \<and> git_updateRef github ''demo'' ''heads/main'' (nc_sha example_commit) s1
             = (Inr (), gh_pushed)"
    unfolding bl by (intro exI [of _ req] exI [of _ entries] exI [of _ nc] exI [of _ s1]) simp
  from c have C: "\<exists>req nc s1. validate_commit commit_example = Inr req
         \<and> commit_build ascii_runtime github req (gh_example, []) = (Inr nc, (s1, example_build_log))
         \<and> nc_sha nc = nc_sha example_commit
         \<and> git_updateRef github ''demo'' ''heads/main'' (nc_sha example_commit) s1
             = (Inr (), gh_pushed)"
    unfolding bl by (intro exI [of _ creq] exI [of _ cnc] exI [of _ cs1]) simp
  have F: "\<exists>entries nc s1 rep.
         push_build ascii_runtime github push_example_request (gh_example, [])
           = (Inr (entries, nc), (s1, example_build_log))
       \<and> ?log = example_build_log @ [(UpdateRef ''demo'' ''heads/main'' (nc_sha nc), rep)]"
    using w5 [THEN mp, OF conjI [OF push_example_valid conjI [OF push_run quiet_log]]]
    unfolding bl by (simp add: push_example_request_def)
  have G: "\<exists>nc s1 rep.
         commit_build ascii_runtime github commit_example_request (gh_example, [])
           = (Inr nc, (s1, example_build_log))
       \<and> ?log = example_build_log @ [(UpdateRef ''demo'' ''heads/main'' (nc_sha nc), rep)]"
    using w6 [THEN mp, OF conjI [OF commit_example_valid conjI [OF commit_run quiet_log]]]
    unfolding bl by (simp add: commit_example_request_def)
  show ?thesis
    by (intro conjI push_example_valid push_example_build commit_example_valid
          commit_example_build push_run commit_run no_failure F G P C)
qed

text \<open>
  The claim as stated fails: step 1 sees \<open>main\<close> at \<open>h1\<close>; before step 6 another writer
  resets \<open>main\<close> to \<open>h0\<close>; the handler's \<open>updateRef\<close> names no expected head, the backend
  takes it as a fast-forward from \<open>h0\<close>, the request succeeds and \<open>main\<close> points at the new
  commit.
\<close>

theorem moved_branch_is_overwritten:
  "map_of (gh_refs gh_example) (''demo'', ''heads/main'') = Some ''h1''
   \<and> push_build ascii_runtime (with_concurrent_writer reset_main github) push_example_request
        (gh_example, [])
      = (Inr ([\<lparr>te_path = ''a.txt'', te_mode = ''100644'', te_type = ''blob'', te_sha = ''blob:MQ==''\<rparr>],
              example_commit),
         (gh_built\<lparr>gh_refs := [((''demo'', ''heads/main''), ''h0'')]\<rparr>, example_build_log))
   \<and> (GetRef ''demo'' ''heads/main'', Sha ''h1'') \<in> set example_build_log
   \<and> push_files ascii_runtime (with_concurrent_writer reset_main github) push_example (gh_example, [])
      = (Ok \<lparr>po_commit = example_commit, po_files = [(''a.txt'', ''blob:MQ=='')], po_branch = ''main''\<rparr>,
         (gh_pushed,
          example_build_log @ [(UpdateRef ''demo'' ''heads/main'' (nc_sha example_commit), Done)]))
   \<and> map_of (gh_refs gh_pushed) (''demo'', ''heads/main'') = Some (nc_sha example_commit)
   \<and> ''h0'' \<noteq> ''h1''"
  using racing_build racing_push
  by (simp add: gh_simps gh_more)

subsection \<open>Request validation of the commit routes\<close>

lemma validate_items_empty_content:
  assumes "\<exists>f\<in>set items. fi_content f = Some []"
  shows "\<exists>e. validate_items items = Inl e"
  using assms
proof (induction items)
  case Nil
  then show ?case by simp
next
  case (Cons f fs)
  show ?case
  proof (cases "fi_content f = Some []")
    case True
    then show ?thesis
      by (auto simp: joi_string_def string_required_def split: sum.splits option.splits)
  next
    case False
    with Cons.prems have "\<exists>f\<in>set fs. fi_content f = Some []" by auto
    with Cons.IH obtain e where "validate_items fs = Inl e" by blast
    then show ?thesis by (auto split: sum.splits)
  qed
qed

lemma validate_push_empty_content:
  assumes "pf_files body = Some items" "\<exists>f\<in>set items. fi_content f = Some []"
  shows "\<exists>e. validate_pushFiles body = Inl e"
  using validate_items_empty_content [OF assms(2)] assms(1)
  by (auto simp: validate_pushFiles_def split: sum.splits)

lemma push_files_rejected:
  "validate_pushFiles body = Inl e \<Longrightarrow> push_files rt cl body w = (Err 400 ''Validation error'' e, w)"
  by (simp add: push_files_def)

text \<open>
  C8 (amended). A file whose content is the empty string is not accepted: \<open>add_file\<close> with
  empty content, and \<open>push_files\<close> with a file of empty content, are answered with the 400
  validation failure; the context store is left unchanged and no call to the object store
  client is made.
\<close>

theorem empty_content_is_rejected:
  "(af_content abody = Some []
      \<longrightarrow> kind_of (fst (add_file rt now store abody)) = Some Validation
          \<and> snd (add_file rt now store abody) = store)
   \<and> (pf_files body = Some items \<and> (\<exists>f\<in>set items. fi_content f = Some [])
      \<longrightarrow> kind_of (fst (push_files rt cl body w)) = Some Validation
          \<and> snd (push_files rt cl body w) = w)"
proof (intro conjI impI)
  assume a: "af_content abody = Some []"
  then have "\<exists>e. validate_addFile abody = Inl e"
    by (auto simp: validate_addFile_def joi_string_def string_required_def split: sum.splits option.splits)
  then obtain e where "validate_addFile abody = Inl e" by blast
  then show "kind_of (fst (add_file rt now store abody)) = Some Validation"
    and "snd (add_file rt now store abody) = store"
    by (simp_all add: add_file_def kind_of_def)
next
  assume "pf_files body = Some items \<and> (\<exists>f\<in>set items. fi_content f = Some [])"
  then obtain e where "validate_pushFiles body = Inl e"
    using validate_push_empty_content [of body items] by blast
  then show "kind_of (fst (push_files rt cl body w)) = Some Validation"
    and "snd (push_files rt cl body w) = w"
    by (simp_all add: push_files_rejected kind_of_def)
qed

text \<open>The amended statement at the example store and the example backend.\<close>

theorem empty_content_is_rejected_witness:
  "af_content (add_body ''ctx_1'' ''empty.txt'' []) = Some []
   \<and> kind_of (fst (add_file ascii_runtime 2001 example_store (add_body ''ctx_1'' ''empty.txt'' [])))
       = Some Validation
   \<and> snd (add_file ascii_runtime 2001 example_store (add_body ''ctx_1'' ''empty.txt'' []))
       = example_store
   \<and> pf_files push_empty_file = Some [\<lparr>fi_path = Some ''a.txt'', fi_content = Some []\<rparr>]
   \<and> kind_of (fst (push_files ascii_runtime github push_empty_file (gh_example, [])))
       = Some Validation
   \<and> snd (push_files ascii_runtime github push_empty_file (gh_example, [])) = (gh_example, [])"
  using empty_content_is_rejected
     [where abody = "add_body ''ctx_1'' ''empty.txt'' []" and rt = ascii_runtime and now = 2001
        and store = example_store and body = push_empty_file
        and items = "[\<lparr>fi_path = Some ''a.txt'', fi_content = Some []\<rparr>]"
        and cl = github and w = "(gh_example, [])"]
  by (simp add: add_body_def push_empty_file_def)

text \<open>
  The claim as stated fails: the schemas declare \<open>content\<close> as \<open>Joi.string().required()\<close>,
  which does not allow the empty string.
\<close>

theorem empty_content_not_accepted:
  "add_file ascii_runtime 2001 example_store (add_body ''ctx_1'' ''empty.txt'' [])
     = (Err 400 ''Validation error'' (JoiEmpty ''content''), example_store)
   \<and> push_files ascii_runtime github push_empty_file (gh_example, [])
     = (Err 400 ''Validation error'' (JoiEmpty ''files[].content''), (gh_example, []))"
  using push_empty_file_run
  by (simp add: add_file_def add_body_def eval_simps)

subsection \<open>A failing run\<close>

text \<open>
  A push and a single-file commit to a branch that does not exist: \<open>getRef\<close> fails, no
  \<open>updateRef\<close> is made and the refs are as before.
\<close>

theorem failure_before_update_leaves_ref_witness:
  "push_files ascii_runtime github push_missing_branch (gh_example, []) =
     (Err 500 ''Failed to push files'' (Upstream ''Not Found''),
      (gh_example, [(ReposGet ''demo'', Done), (GetRef ''demo'' ''heads/dev'', Failed not_found)]))
   \<and> commit ascii_runtime github commit_missing_branch (gh_example, []) =
     (Err 500 ''Failed to commit file'' (Upstream ''Not Found''),
      (gh_example, [(ReposGet ''demo'', Done), (GetRef ''demo'' ''heads/dev'', Failed not_found)]))
   \<and> failed (Failed not_found) \<and> \<not> is_update_ref (GetRef ''demo'' ''heads/dev'')
   \<and> refs_preserved github gh_refs
   \<and> list_all (\<lambda>e. \<not> is_update_ref (fst e))
        [(ReposGet ''demo'', Done), (GetRef ''demo'' ''heads/dev'', Failed not_found)]
   \<and> gh_refs gh_example = gh_refs gh_example"
proof -
  let ?log = "[(ReposGet ''demo'', Done), (GetRef ''demo'' ''heads/dev'', Failed not_found)]"
  have bad: "\<exists>e\<in>set ?log. failed (snd e) \<and> \<not> is_update_ref (fst e)"
    by (simp add: failed_def is_update_ref_def)
  note w = failure_before_update_leaves_ref
     [where rt = ascii_runtime and cl = github and body = push_missing_branch and s = gh_example
        and resp = "Err 500 ''Failed to push files'' (Upstream ''Not Found'')" and s' = gh_example
        and log = ?log and obs = gh_refs and cbody = commit_missing_branch
        and cresp = "Err 500 ''Failed to commit file'' (Upstream ''Not Found'')"
        and cs' = gh_example and clog = ?log]
  from w [THEN conjunct1, THEN mp, OF conjI [OF push_missing_branch_run bad]]
  have "\<forall>e\<in>set ?log. \<not> is_update_ref (fst e)" by blast
  then have quiet_log: "list_all (\<lambda>e. \<not> is_update_ref (fst e)) ?log"
    by (simp add: list_all_iff)
  have f: "failed (Failed not_found)" "\<not> is_update_ref (GetRef ''demo'' ''heads/dev'')"
    by (simp_all add: failed_def is_update_ref_def)
  show ?thesis
    by (intro conjI push_missing_branch_run commit_missing_branch_run f github_refs_preserved
          quiet_log refl)
qed

subsection \<open>A push without files\<close>

lemma create_blobs_not_replied:
  "create_blobs rt cl r fs w \<noteq> (Inl (Replied st msg), w')"
proof (induction fs arbitrary: w w')
  case Nil
  show ?case by (simp add: return_io_def)
next
  case (Cons f fs)
  obtain path t where f: "f = (path, t)" by (cases f)
  show ?case
    unfolding f using Cons.IH
    by (cases w) (auto simp: perform_def split: prod.splits sum.splits)
qed

lemma push_try_replied:
  assumes "push_try rt cl req w = (Inl (Replied st msg), w')"
  shows "st = 404"
  using assms create_blobs_not_replied [of rt cl "pr_repoName req" "pr_files req"]
  by (cases w)
     (auto simp: push_try_def push_build_def then_do_def perform_def checkRepoExists_def
           return_io_def split: prod.splits sum.splits abort.splits if_splits)

lemma guard_starts:
  assumes "quiet obs rest"
    and "then_do (checkRepoExists cl r) (\<lambda>exists. if \<not> exists then (\<lambda>w. (Inl x, w)) else rest)
           (s, []) = (res, (s', log'))"
  shows "\<exists>rep new. log' = (ReposGet r, rep) # new"
proof -
  obtain r1 s1 where op: "repos_get cl r s = (r1, s1)" by (cases "repos_get cl r s")
  show ?thesis
  proof (cases r1)
    case (Inl e)
    with assms(2) op have "log' = [(ReposGet r, Failed e)]"
      by (auto simp: then_do_def checkRepoExists_def perform_def split: if_splits)
    then show ?thesis by simp
  next
    case (Inr u)
    with assms(2) op have "rest (s1, [(ReposGet r, Done)]) = (res, (s', log'))"
      by (simp add: then_do_def checkRepoExists_def perform_def)
    with assms(1) obtain new where "log' = [(ReposGet r, Done)] @ new"
      unfolding quiet_def by blast
    then show ?thesis by simp
  qed
qed

lemma push_build_starts:
  assumes "push_build rt cl req (s, []) = (res, (s1, log1))"
  shows "\<exists>rep new. log1 = (ReposGet (pr_repoName req), rep) # new"
  using assms unfolding push_build_def
  by (rule guard_starts [where obs = "\<lambda>s. ()", rotated])
     (intro quiet_then_do quiet_perform quiet_create_blobs quiet_return refs_preserved_trivial;
      simp add: is_update_ref_def failed_def)

lemma push_try_starts:
  assumes "push_try rt cl req (s, []) = (res, (s2, log2))"
  shows "\<exists>rep rest. log2 = (ReposGet (pr_repoName req), rep) # rest"
  using then_do_cases [OF assms [unfolded push_try_shape]]
proof (elim disjE exE conjE)
  fix x assume "push_build rt cl req (s, []) = (Inl x, (s2, log2))"
  from push_build_starts [OF this] show ?thesis .
next
  fix a w1
  assume b: "push_build rt cl req (s, []) = (Inr a, w1)"
    and u: "then_do (perform (UpdateRef (pr_repoName req) (''heads/'' @ pr_branch req) (nc_sha (snd a)))
                  (\<lambda>u. Done)
                  (git_updateRef cl (pr_repoName req) (''heads/'' @ pr_branch req) (nc_sha (snd a))))
               (\<lambda>u. return_io \<lparr>po_commit = snd a,
                          po_files = map (\<lambda>b. (te_path b, te_sha b)) (fst a),
                          po_branch = pr_branch req\<rparr>) w1 = (res, (s2, log2))"
  obtain s1 log1 where w1: "w1 = (s1, log1)" by (cases w1)
  from push_build_starts [OF b [unfolded w1]] obtain rep new where
    "log1 = (ReposGet (pr_repoName req), rep) # new" by blast
  moreover from final_call_log [OF u [unfolded w1]] obtain rep' where
    "log2 = log1 @ [(UpdateRef (pr_repoName req) (''heads/'' @ pr_branch req) (nc_sha (snd a)), rep')]"
    by blast
  ultimately show ?thesis by simp
qed

text \<open>
  C2 (amended). A \<open>push_files\<close> request that fails validation, in particular one whose
  \<open>files\<close> member is missing, is answered with the 400 validation failure before any call to
  the object store client. A request whose \<open>files\<close> list is empty (and whose other members
  are valid) passes validation: the handler's first call is the repository lookup and its
  answer is never a validation failure.
\<close>

theorem empty_file_list_reaches_store:
  "(validate_pushFiles body = Inl e
      \<longrightarrow> push_files rt cl body w = (Err 400 ''Validation error'' e, w))
   \<and> (pf_files body = None \<longrightarrow> (\<exists>e. validate_pushFiles body = Inl e))
   \<and> (pf_files body = Some [] \<and> \<not> falsy (pf_repoName body) \<and> pf_branch body \<noteq> Some []
        \<and> \<not> falsy (pf_message body)
      \<longrightarrow> (\<exists>req. validate_pushFiles body = Inr req \<and> pr_files req = [])
          \<and> (\<exists>rep rest. snd (snd (push_files rt cl body (s, [])))
                = (ReposGet (str_of (pf_repoName body)), rep) # rest)
          \<and> kind_of (fst (push_files rt cl body (s, []))) \<noteq> Some Validation)"
proof (intro conjI impI)
  assume "validate_pushFiles body = Inl e"
  then show "push_files rt cl body w = (Err 400 ''Validation error'' e, w)"
    by (rule push_files_rejected)
next
  assume "pf_files body = None"
  then show "\<exists>e. validate_pushFiles body = Inl e"
    by (auto simp: validate_pushFiles_def split: sum.splits)
next
  assume a: "pf_files body = Some [] \<and> \<not> falsy (pf_repoName body) \<and> pf_branch body \<noteq> Some []
        \<and> \<not> falsy (pf_message body)"
  let ?req = "\<lparr>pr_repoName = str_of (pf_repoName body), pr_branch = or_main (pf_branch body),
               pr_files = [], pr_message = str_of (pf_message body)\<rparr>"
  from a have v: "validate_pushFiles body = Inr ?req"
    by (auto simp: validate_pushFiles_def joi_string_def string_required_def string_default_def
          falsy_def str_of_def or_main_def split: option.splits)
  then show "\<exists>req. validate_pushFiles body = Inr req \<and> pr_files req = []" by simp
  obtain r1 s1 where g: "repos_get cl (str_of (pf_repoName body)) s = (r1, s1)"
    by (cases "repos_get cl (str_of (pf_repoName body)) s")
  obtain res s2 log2 where t: "push_try rt cl ?req (s, []) = (res, (s2, log2))"
    by (cases "push_try rt cl ?req (s, [])") auto
  have first: "\<exists>rep rest. log2 = (ReposGet (str_of (pf_repoName body)), rep) # rest"
    using push_try_starts [OF t] by simp
  have nv: "\<forall>st msg. res = Inl (Replied st msg) \<longrightarrow> st = 404"
    using push_try_replied [of rt cl ?req "(s, [])" _ _ "(s2, log2)"] t by auto
  show "\<exists>rep rest. snd (snd (push_files rt cl body (s, [])))
                = (ReposGet (str_of (pf_repoName body)), rep) # rest"
    using first push_files_result [OF v t] by simp
  show "kind_of (fst (push_files rt cl body (s, []))) \<noteq> Some Validation"
    using nv push_files_result [OF v t]
    by (auto simp: kind_of_def split: sum.splits abort.splits)
qed


text \<open>The amended statement for a request without \<open>files\<close> and for one with no files.\<close>

theorem empty_file_list_reaches_store_witness:
  "validate_pushFiles (push_nothing\<lparr>pf_files := None\<rparr>) = Inl (JoiRequired ''files'')
   \<and> push_files ascii_runtime github (push_nothing\<lparr>pf_files := None\<rparr>) (gh_example, [])
       = (Err 400 ''Validation error'' (JoiRequired ''files''), (gh_example, []))
   \<and> pf_files push_nothing = Some [] \<and> \<not> falsy (pf_repoName push_nothing)
   \<and> pf_branch push_nothing \<noteq> Some [] \<and> \<not> falsy (pf_message push_nothing)
   \<and> (\<exists>req. validate_pushFiles push_nothing = Inr req \<and> pr_files req = [])
   \<and> (\<exists>rep rest. snd (snd (push_files ascii_runtime github push_nothing (gh_example, [])))
          = (ReposGet (str_of (pf_repoName push_nothing)), rep) # rest)
   \<and> kind_of (fst (push_files ascii_runtime github push_nothing (gh_example, []))) \<noteq> Some Validation"
proof -
  have v: "validate_pushFiles (push_nothing\<lparr>pf_files := None\<rparr>) = Inl (JoiRequired ''files'')"
    by (simp add: validate_pushFiles_def push_nothing_def eval_simps)
  have h: "pf_files push_nothing = Some [] \<and> \<not> falsy (pf_repoName push_nothing)
        \<and> pf_branch push_nothing \<noteq> Some [] \<and> \<not> falsy (pf_message push_nothing)"
    by (simp add: push_nothing_def falsy_def)
  note w = empty_file_list_reaches_store
     [where body = push_nothing and rt = ascii_runtime and cl = github and s = gh_example]
  note w0 = empty_file_list_reaches_store
     [where body = "push_nothing\<lparr>pf_files := None\<rparr>" and rt = ascii_runtime and cl = github
        and w = "(gh_example, [])" and e = "JoiRequired ''files''"]
  from w0 [THEN conjunct1, THEN mp, OF v] w [THEN conjunct2, THEN conjunct2, THEN mp, OF h] v h
  show ?thesis by simp
qed

text \<open>
  The claim as stated fails: a push with an empty \<open>files\<close> list for an unknown repository is
  answered 404 after the repository lookup has been made.
\<close>

theorem empty_file_list_not_rejected:
  "pf_files push_nothing = Some []
   \<and> push_files ascii_runtime github push_nothing (gh_example, []) =
       (Err 404 ''Repository nope not found'' NoDetails,
        (gh_example, [(ReposGet ''nope'', Failed not_found)]))"
  using push_nothing_run by (simp add: push_nothing_def)

end
